theory Spec2Isabelle
  imports Main
begin

section \<open>The template context stack of django/template/context.py\<close>

text \<open>
  The module keeps a stack of dictionaries per context object. Dictionaries, the lists
  that hold them and context objects are Python objects with identity:
  \<^verbatim>\<open>Context.update\<close> pushes the caller's own dictionary, \<^verbatim>\<open>push\<close> and \<^verbatim>\<open>pop\<close> change the
  list \<^verbatim>\<open>self.dicts\<close> in place, and \<^verbatim>\<open>__copy__\<close> makes a new list of the same frames. The
  model therefore keeps an explicit store: frames, lists and contexts are addressed by
  references, and
  every method that changes something takes the store and returns the updated one, with
  its result or the exception it raised. \<^verbatim>\<open>__repr__\<close>, \<^verbatim>\<open>__iter__\<close> and \<^verbatim>\<open>new\<close> play
  no part in the properties below and are left out.
\<close>

subsection \<open>Values and frames\<close>

text \<open>
  Template variable names are strings. The values bound to them are opaque to the module;
  the model has \<^verbatim>\<open>None\<close> and the integers. Python's \<^verbatim>\<open>bool\<close> is a subclass of
  \<^verbatim>\<open>int\<close> with \<^verbatim>\<open>True == 1\<close> and \<^verbatim>\<open>False == 0\<close>, and dictionaries are compared
  with \<^verbatim>\<open>==\<close> on their values, so the two booleans are the integers one and zero.
\<close>

type_synonym key = string

datatype pyval = PyNone | PyInt int

abbreviation PyTrue :: pyval where
  "PyTrue \<equiv> PyInt 1"

abbreviation PyFalse :: pyval where
  "PyFalse \<equiv> PyInt 0"

type_synonym frame = "key \<rightharpoonup> pyval"

type_synonym ref = nat

type_synonym lref = nat

type_synonym cref = nat

datatype error =
    ContextPopException
  | KeyError key
  | TypeError
  | AttributeError
  | IndexError
  | ImportError
  | BadRef

text \<open>
  The objects that can sit in \<^verbatim>\<open>self.dicts\<close>: a plain \<^verbatim>\<open>dict\<close>, a
  \<^verbatim>\<open>ContextDict\<close> (a \<^verbatim>\<open>dict\<close> that remembers the context it was pushed on), and, since
  neither \<^verbatim>\<open>_reset_dicts\<close> nor \<^verbatim>\<open>update\<close> asks for a dictionary, objects that are
  not mappings: a list (which has \<^verbatim>\<open>__getitem__\<close>) and an integer (which has not).
  \<^verbatim>\<open>None\<close> is not stored: an argument that may be \<^verbatim>\<open>None\<close> is a \<open>ref option\<close>.
  Error \<open>BadRef\<close> is a reference with no object behind it, which Python cannot produce.
\<close>

datatype pyobj =
    Dict frame
  | ContextDict frame cref
  | ListObj "pyval list"
  | IntObj int

fun mapping_of :: "pyobj \<Rightarrow> frame option" where
  "mapping_of (Dict f) = Some f"
| "mapping_of (ContextDict f c) = Some f"
| "mapping_of (ListObj xs) = None"
| "mapping_of (IntObj n) = None"

text \<open>\<^verbatim>\<open>key in d\<close>. A string key equals no element of a list of integers and \<^verbatim>\<open>None\<close>.\<close>

fun obj_contains :: "pyobj \<Rightarrow> key \<Rightarrow> error + bool" where
  "obj_contains (Dict f) k = Inr (f k \<noteq> None)"
| "obj_contains (ContextDict f c) k = Inr (f k \<noteq> None)"
| "obj_contains (ListObj xs) k = Inr False"
| "obj_contains (IntObj n) k = Inl TypeError"

text \<open>\<^verbatim>\<open>d[key]\<close>\<close>

definition dict_getitem :: "frame \<Rightarrow> key \<Rightarrow> error + pyval" where
  "dict_getitem f k = (case f k of None \<Rightarrow> Inl (KeyError k) | Some v \<Rightarrow> Inr v)"

fun obj_getitem :: "pyobj \<Rightarrow> key \<Rightarrow> error + pyval" where
  "obj_getitem (Dict f) k = dict_getitem f k"
| "obj_getitem (ContextDict f c) k = dict_getitem f k"
| "obj_getitem (ListObj xs) k = Inl TypeError"
| "obj_getitem (IntObj n) k = Inl TypeError"

text \<open>\<^verbatim>\<open>d[key] = value\<close>\<close>

fun obj_setitem :: "pyobj \<Rightarrow> key \<Rightarrow> pyval \<Rightarrow> error + pyobj" where
  "obj_setitem (Dict f) k v = Inr (Dict (f(k \<mapsto> v)))"
| "obj_setitem (ContextDict f c) k v = Inr (ContextDict (f(k \<mapsto> v)) c)"
| "obj_setitem (ListObj xs) k v = Inl TypeError"
| "obj_setitem (IntObj n) k v = Inl TypeError"

text \<open>\<^verbatim>\<open>del d[key]\<close>\<close>

definition dict_delitem :: "frame \<Rightarrow> key \<Rightarrow> error + frame" where
  "dict_delitem f k = (if f k = None then Inl (KeyError k) else Inr (f(k := None)))"

fun obj_delitem :: "pyobj \<Rightarrow> key \<Rightarrow> error + pyobj" where
  "obj_delitem (Dict f) k =
     (case dict_delitem f k of Inl e \<Rightarrow> Inl e | Inr g \<Rightarrow> Inr (Dict g))"
| "obj_delitem (ContextDict f c) k =
     (case dict_delitem f k of Inl e \<Rightarrow> Inl e | Inr g \<Rightarrow> Inr (ContextDict g c))"
| "obj_delitem (ListObj xs) k = Inl TypeError"
| "obj_delitem (IntObj n) k = Inl TypeError"

text \<open>\<^verbatim>\<open>d.get(key, otherwise)\<close>\<close>

definition dict_get :: "frame \<Rightarrow> key \<Rightarrow> pyval \<Rightarrow> pyval" where
  "dict_get f k otherwise = (case f k of None \<Rightarrow> otherwise | Some v \<Rightarrow> v)"

fun obj_get :: "pyobj \<Rightarrow> key \<Rightarrow> pyval \<Rightarrow> error + pyval" where
  "obj_get (Dict f) k otherwise = Inr (dict_get f k otherwise)"
| "obj_get (ContextDict f c) k otherwise = Inr (dict_get f k otherwise)"
| "obj_get (ListObj xs) k otherwise = Inl AttributeError"
| "obj_get (IntObj n) k otherwise = Inl AttributeError"

text \<open>
  \<^verbatim>\<open>flat.update(d)\<close>: the bindings of \<open>d\<close> override those of \<open>flat\<close>. An empty list is an
  empty sequence of pairs; an element that is an integer or \<^verbatim>\<open>None\<close> is not a pair.
\<close>

fun dict_update :: "frame \<Rightarrow> pyobj \<Rightarrow> error + frame" where
  "dict_update flat (Dict f) = Inr (flat ++ f)"
| "dict_update flat (ContextDict f c) = Inr (flat ++ f)"
| "dict_update flat (ListObj []) = Inr flat"
| "dict_update flat (ListObj (x # xs)) = Inl TypeError"
| "dict_update flat (IntObj n) = Inl TypeError"

text \<open>\<^verbatim>\<open>hasattr(d, '__getitem__')\<close>\<close>

fun has_getitem :: "pyobj \<Rightarrow> bool" where
  "has_getitem (Dict f) = True"
| "has_getitem (ContextDict f c) = True"
| "has_getitem (ListObj xs) = True"
| "has_getitem (IntObj n) = False"

subsection \<open>Context objects and the store\<close>

datatype pyclass = BaseContext | Context | RenderContext | RequestContext

text \<open>The attributes that \<^verbatim>\<open>Context.__init__\<close> adds to an instance.\<close>

record side_state =
  autoescape :: pyval
  current_app :: pyval
  use_l10n :: pyval
  use_tz :: pyval
  render_context :: cref

text \<open>
  An instance of one of the four classes: its class, the attribute \<^verbatim>\<open>dicts\<close> and, for a
  \<^verbatim>\<open>Context\<close>, the attributes above. \<^verbatim>\<open>dicts\<close> is a reference to a list object, absent
  until \<^verbatim>\<open>_reset_dicts\<close> assigns it; two instances whose attributes hold the same
  reference share one list.
\<close>

record ctxobj =
  cls :: pyclass
  dicts :: "lref option"
  extra :: "side_state option"

text \<open>
  The store: the frame objects, the list objects (each a list of references to frames),
  the context objects and, for each kind, the next reference to hand out.
\<close>

record heap =
  objs :: "ref \<rightharpoonup> pyobj"
  lists :: "lref \<rightharpoonup> ref list"
  ctxs :: "cref \<rightharpoonup> ctxobj"
  next_ref :: ref
  next_lref :: lref
  next_cref :: cref

definition empty_heap :: heap where
  "empty_heap =
     \<lparr>objs = Map.empty, lists = Map.empty, ctxs = Map.empty,
      next_ref = 0, next_lref = 0, next_cref = 0\<rparr>"

definition alloc_obj :: "heap \<Rightarrow> pyobj \<Rightarrow> ref \<times> heap" where
  "alloc_obj h ob =
     (next_ref h, h\<lparr>objs := (objs h)(next_ref h \<mapsto> ob), next_ref := Suc (next_ref h)\<rparr>)"

definition alloc_list :: "heap \<Rightarrow> ref list \<Rightarrow> lref \<times> heap" where
  "alloc_list h ds =
     (next_lref h, h\<lparr>lists := (lists h)(next_lref h \<mapsto> ds), next_lref := Suc (next_lref h)\<rparr>)"

definition alloc_ctx :: "heap \<Rightarrow> ctxobj \<Rightarrow> cref \<times> heap" where
  "alloc_ctx h i =
     (next_cref h, h\<lparr>ctxs := (ctxs h)(next_cref h \<mapsto> i), next_cref := Suc (next_cref h)\<rparr>)"

text \<open>
  \<open>dicts_ref\<close> is the reference held by \<^verbatim>\<open>self.dicts\<close> and \<open>self_dicts\<close> the contents of the
  list behind it. \<open>set_dicts\<close> changes that list object in place, as \<^verbatim>\<open>append\<close> and
  \<^verbatim>\<open>pop\<close> do: every instance that holds the same reference sees the change.
  \<open>assign_dicts\<close> is the assignment \<^verbatim>\<open>self.dicts = ...\<close> of a reference to the attribute.
  \<open>deref\<close> follows a reference to a frame.
\<close>

definition dicts_ref :: "heap \<Rightarrow> cref \<Rightarrow> error + lref" where
  "dicts_ref h self =
     (case ctxs h self of
        None \<Rightarrow> Inl BadRef
      | Some i \<Rightarrow> (case dicts i of None \<Rightarrow> Inl AttributeError | Some l \<Rightarrow> Inr l))"

definition self_dicts :: "heap \<Rightarrow> cref \<Rightarrow> error + ref list" where
  "self_dicts h self =
     (case dicts_ref h self of
        Inl e \<Rightarrow> Inl e
      | Inr l \<Rightarrow> (case lists h l of None \<Rightarrow> Inl BadRef | Some ds \<Rightarrow> Inr ds))"

definition set_dicts :: "heap \<Rightarrow> cref \<Rightarrow> ref list \<Rightarrow> heap" where
  "set_dicts h self ds =
     (case dicts_ref h self of
        Inl e \<Rightarrow> h
      | Inr l \<Rightarrow> h\<lparr>lists := (lists h)(l \<mapsto> ds)\<rparr>)"

definition assign_dicts :: "heap \<Rightarrow> cref \<Rightarrow> lref \<Rightarrow> heap" where
  "assign_dicts h self l =
     (case ctxs h self of
        None \<Rightarrow> h
      | Some i \<Rightarrow> h\<lparr>ctxs := (ctxs h)(self \<mapsto> i\<lparr>dicts := Some l\<rparr>)\<rparr>)"

definition deref :: "heap \<Rightarrow> ref \<Rightarrow> error + pyobj" where
  "deref h r = (case objs h r of None \<Rightarrow> Inl BadRef | Some ob \<Rightarrow> Inr ob)"

text \<open>\<^verbatim>\<open>self.dicts[-1]\<close>, with the object it refers to.\<close>

definition top_frame :: "heap \<Rightarrow> cref \<Rightarrow> error + ref \<times> pyobj" where
  "top_frame h self =
     (case self_dicts h self of
        Inl e \<Rightarrow> Inl e
      | Inr ds \<Rightarrow>
          if ds = [] then Inl IndexError
          else (case deref h (last ds) of Inl e \<Rightarrow> Inl e | Inr ob \<Rightarrow> Inr (last ds, ob)))"

subsection \<open>BaseContext\<close>

definition builtins :: frame where
  "builtins = [''True'' \<mapsto> PyTrue, ''False'' \<mapsto> PyFalse, ''None'' \<mapsto> PyNone]"

text \<open>
  \<^verbatim>\<open>_reset_dicts(self, value=None)\<close> (lines 34-38): a new builtins dictionary in a new list,
  assigned to \<^verbatim>\<open>self.dicts\<close>; then \<^verbatim>\<open>value\<close>, if given, is appended to that list.
\<close>

definition reset_dicts :: "heap \<Rightarrow> cref \<Rightarrow> ref option \<Rightarrow> heap" where
  "reset_dicts h self val =
     (let (b, h1) = alloc_obj h (Dict builtins);
          (l, h2) = alloc_list h1 [b];
          h3 = assign_dicts h2 self l
      in (case val of None \<Rightarrow> h3 | Some v \<Rightarrow> set_dicts h3 self ([b] @ [v])))"

text \<open>A new instance of a class, before \<^verbatim>\<open>__init__\<close> has set any attribute.\<close>

definition new_instance :: "heap \<Rightarrow> pyclass \<Rightarrow> cref \<times> heap" where
  "new_instance h c = alloc_ctx h \<lparr>cls = c, dicts = None, extra = None\<rparr>"

text \<open>\<^verbatim>\<open>BaseContext(dict_)\<close>, also for the subclass \<^verbatim>\<open>RenderContext\<close>.\<close>

definition base_init :: "heap \<Rightarrow> cref \<Rightarrow> ref option \<Rightarrow> heap" where
  "base_init h self dict0 = reset_dicts h self dict0"

definition new_base :: "heap \<Rightarrow> pyclass \<Rightarrow> ref option \<Rightarrow> cref \<times> heap" where
  "new_base h c dict0 = (let (self, h1) = new_instance h c in (self, base_init h1 self dict0))"

text \<open>
  \<^verbatim>\<open>__copy__\<close> (lines 40-43): \<^verbatim>\<open>copy(super(BaseContext, self))\<close> is the default shallow
  copy, a new instance of the same class with the same attribute values, so that its
  \<^verbatim>\<open>dicts\<close> is at first the list of \<^verbatim>\<open>self\<close>; then the slice \<^verbatim>\<open>self.dicts[:]\<close>, a new list
  object with the same references in it, is assigned to \<^verbatim>\<open>duplicate.dicts\<close>.
\<close>

definition base_copy :: "heap \<Rightarrow> cref \<Rightarrow> (error + cref) \<times> heap" where
  "base_copy h self =
     (case ctxs h self of
        None \<Rightarrow> (Inl BadRef, h)
      | Some i \<Rightarrow>
          (let (duplicate, h1) = alloc_ctx h i
           in (case self_dicts h1 self of
                 Inl e \<Rightarrow> (Inl e, h1)
               | Inr ds \<Rightarrow>
                   (let (l, h2) = alloc_list h1 ds
                    in (Inr duplicate, assign_dicts h2 duplicate l)))))"

text \<open>
  \<^verbatim>\<open>push(*args, **kwargs)\<close> (lines 52-53, with \<^verbatim>\<open>ContextDict.__init__\<close>, lines 17-21):
  \<open>init\<close> is the dictionary built from the arguments.
\<close>

definition push :: "heap \<Rightarrow> cref \<Rightarrow> frame \<Rightarrow> (error + ref) \<times> heap" where
  "push h self init =
     (case self_dicts h self of
        Inl e \<Rightarrow> (Inl e, h)
      | Inr ds \<Rightarrow>
          (let (d, h1) = alloc_obj h (ContextDict init self)
           in (Inr d, set_dicts h1 self (ds @ [d]))))"

text \<open>\<^verbatim>\<open>pop()\<close> (lines 55-58); \<^verbatim>\<open>list.pop\<close> of an empty list raises \<^verbatim>\<open>IndexError\<close>.\<close>

definition pop :: "heap \<Rightarrow> cref \<Rightarrow> (error + ref) \<times> heap" where
  "pop h self =
     (case self_dicts h self of
        Inl e \<Rightarrow> (Inl e, h)
      | Inr ds \<Rightarrow>
          if length ds = 1 then (Inl ContextPopException, h)
          else if ds = [] then (Inl IndexError, h)
          else (Inr (last ds), set_dicts h self (butlast ds)))"

text \<open>\<^verbatim>\<open>__setitem__\<close> (lines 60-62): \<^verbatim>\<open>self.dicts[-1][key] = value\<close>\<close>

definition setitem :: "heap \<Rightarrow> cref \<Rightarrow> key \<Rightarrow> pyval \<Rightarrow> (error + unit) \<times> heap" where
  "setitem h self k v =
     (case top_frame h self of
        Inl e \<Rightarrow> (Inl e, h)
      | Inr (r, ob) \<Rightarrow>
          (case obj_setitem ob k v of
             Inl e \<Rightarrow> (Inl e, h)
           | Inr ob' \<Rightarrow> (Inr (), h\<lparr>objs := (objs h)(r \<mapsto> ob')\<rparr>)))"

text \<open>\<^verbatim>\<open>__delitem__\<close> (lines 71-73): \<^verbatim>\<open>del self.dicts[-1][key]\<close>\<close>

definition delitem :: "heap \<Rightarrow> cref \<Rightarrow> key \<Rightarrow> (error + unit) \<times> heap" where
  "delitem h self k =
     (case top_frame h self of
        Inl e \<Rightarrow> (Inl e, h)
      | Inr (r, ob) \<Rightarrow>
          (case obj_delitem ob k of
             Inl e \<Rightarrow> (Inl e, h)
           | Inr ob' \<Rightarrow> (Inr (), h\<lparr>objs := (objs h)(r \<mapsto> ob')\<rparr>)))"

text \<open>
  The loop of \<^verbatim>\<open>__getitem__\<close> and \<^verbatim>\<open>get\<close> over the frames in the order given:
  \<^verbatim>\<open>if key in d: return d[key]\<close>. \<open>Inr None\<close> is the loop running to its end.
\<close>

fun lookup_frames :: "heap \<Rightarrow> ref list \<Rightarrow> key \<Rightarrow> error + pyval option" where
  "lookup_frames h [] k = Inr None"
| "lookup_frames h (r # rs) k =
     (case deref h r of
        Inl e \<Rightarrow> Inl e
      | Inr d \<Rightarrow>
          (case obj_contains d k of
             Inl e \<Rightarrow> Inl e
           | Inr True \<Rightarrow> (case obj_getitem d k of Inl e \<Rightarrow> Inl e | Inr v \<Rightarrow> Inr (Some v))
           | Inr False \<Rightarrow> lookup_frames h rs k))"

text \<open>
  \<^verbatim>\<open>__getitem__\<close> (lines 64-69): the frames in reverse, from the last pushed to the
  builtins, \<^verbatim>\<open>KeyError\<close> at the end.
\<close>

definition getitem :: "heap \<Rightarrow> cref \<Rightarrow> key \<Rightarrow> error + pyval" where
  "getitem h self k =
     (case self_dicts h self of
        Inl e \<Rightarrow> Inl e
      | Inr ds \<Rightarrow>
          (case lookup_frames h (rev ds) k of
             Inl e \<Rightarrow> Inl e
           | Inr None \<Rightarrow> Inl (KeyError k)
           | Inr (Some v) \<Rightarrow> Inr v))"

text \<open>\<^verbatim>\<open>get(key, otherwise=None)\<close> (lines 84-88)\<close>

definition get :: "heap \<Rightarrow> cref \<Rightarrow> key \<Rightarrow> pyval \<Rightarrow> error + pyval" where
  "get h self k otherwise =
     (case self_dicts h self of
        Inl e \<Rightarrow> Inl e
      | Inr ds \<Rightarrow>
          (case lookup_frames h (rev ds) k of
             Inl e \<Rightarrow> Inl e
           | Inr None \<Rightarrow> Inr otherwise
           | Inr (Some v) \<Rightarrow> Inr v))"

text \<open>\<^verbatim>\<open>BaseContext.has_key\<close> (lines 75-79): the frames from the bottom up.\<close>

fun any_frame_has :: "heap \<Rightarrow> ref list \<Rightarrow> key \<Rightarrow> error + bool" where
  "any_frame_has h [] k = Inr False"
| "any_frame_has h (r # rs) k =
     (case deref h r of
        Inl e \<Rightarrow> Inl e
      | Inr d \<Rightarrow>
          (case obj_contains d k of
             Inl e \<Rightarrow> Inl e
           | Inr True \<Rightarrow> Inr True
           | Inr False \<Rightarrow> any_frame_has h rs k))"

definition has_key :: "heap \<Rightarrow> cref \<Rightarrow> key \<Rightarrow> error + bool" where
  "has_key h self k =
     (case self_dicts h self of Inl e \<Rightarrow> Inl e | Inr ds \<Rightarrow> any_frame_has h ds k)"

text \<open>
  \<^verbatim>\<open>flatten\<close> (lines 99-106): \<^verbatim>\<open>for d in self.dicts: flat.update(d)\<close>, from the bottom up.
\<close>

fun flatten_frames :: "heap \<Rightarrow> frame \<Rightarrow> ref list \<Rightarrow> error + frame" where
  "flatten_frames h flat [] = Inr flat"
| "flatten_frames h flat (r # rs) =
     (case deref h r of
        Inl e \<Rightarrow> Inl e
      | Inr d \<Rightarrow>
          (case dict_update flat d of
             Inl e \<Rightarrow> Inl e
           | Inr flat' \<Rightarrow> flatten_frames h flat' rs))"

definition flatten :: "heap \<Rightarrow> cref \<Rightarrow> error + frame" where
  "flatten h self =
     (case self_dicts h self of
        Inl e \<Rightarrow> Inl e
      | Inr ds \<Rightarrow> flatten_frames h Map.empty ds)"

text \<open>
  \<^verbatim>\<open>__eq__(self, other)\<close> (lines 108-118). The other operand is any Python value: a context object (every
  class of the module is a subclass of \<^verbatim>\<open>BaseContext\<close>), another object, or \<^verbatim>\<open>None\<close>.
\<close>

datatype pyarg = Ctx cref | Obj ref | NoneArg

fun isinstance_BaseContext :: "pyarg \<Rightarrow> bool" where
  "isinstance_BaseContext (Ctx c) = True"
| "isinstance_BaseContext (Obj r) = False"
| "isinstance_BaseContext NoneArg = False"

fun eq :: "heap \<Rightarrow> cref \<Rightarrow> pyarg \<Rightarrow> error + bool" where
  "eq h self (Ctx other) =
     (case flatten h self of
        Inl e \<Rightarrow> Inl e
      | Inr f \<Rightarrow> (case flatten h other of Inl e \<Rightarrow> Inl e | Inr g \<Rightarrow> Inr (f = g)))"
| "eq h self (Obj r) = Inr False"
| "eq h self NoneArg = Inr False"

subsection \<open>RenderContext\<close>

text \<open>
  The three lookup methods that \<^verbatim>\<open>RenderContext\<close> overrides (lines 164-171) read
  \<^verbatim>\<open>self.dicts[-1]\<close> only.
\<close>

definition render_has_key :: "heap \<Rightarrow> cref \<Rightarrow> key \<Rightarrow> error + bool" where
  "render_has_key h self k =
     (case top_frame h self of Inl e \<Rightarrow> Inl e | Inr (r, ob) \<Rightarrow> obj_contains ob k)"

definition render_get :: "heap \<Rightarrow> cref \<Rightarrow> key \<Rightarrow> pyval \<Rightarrow> error + pyval" where
  "render_get h self k otherwise =
     (case top_frame h self of Inl e \<Rightarrow> Inl e | Inr (r, ob) \<Rightarrow> obj_get ob k otherwise)"

definition render_getitem :: "heap \<Rightarrow> cref \<Rightarrow> key \<Rightarrow> error + pyval" where
  "render_getitem h self k =
     (case top_frame h self of Inl e \<Rightarrow> Inl e | Inr (r, ob) \<Rightarrow> obj_getitem ob k)"

subsection \<open>Method calls on an object of any class\<close>

text \<open>
  \<^verbatim>\<open>obj[key]\<close>, \<^verbatim>\<open>obj.get(key, otherwise)\<close> and \<^verbatim>\<open>obj.has_key(key)\<close> run the method of the
  object's class. \<^verbatim>\<open>__contains__\<close> is defined once, in \<^verbatim>\<open>BaseContext\<close>, and calls
  \<^verbatim>\<open>self.has_key\<close>, which is the override for a \<^verbatim>\<open>RenderContext\<close>.
\<close>

definition class_of :: "heap \<Rightarrow> cref \<Rightarrow> error + pyclass" where
  "class_of h self = (case ctxs h self of None \<Rightarrow> Inl BadRef | Some i \<Rightarrow> Inr (cls i))"

definition call_getitem :: "heap \<Rightarrow> cref \<Rightarrow> key \<Rightarrow> error + pyval" where
  "call_getitem h self k =
     (case class_of h self of
        Inl e \<Rightarrow> Inl e
      | Inr c \<Rightarrow> if c = RenderContext then render_getitem h self k else getitem h self k)"

definition call_get :: "heap \<Rightarrow> cref \<Rightarrow> key \<Rightarrow> pyval \<Rightarrow> error + pyval" where
  "call_get h self k otherwise =
     (case class_of h self of
        Inl e \<Rightarrow> Inl e
      | Inr c \<Rightarrow>
          if c = RenderContext then render_get h self k otherwise else get h self k otherwise)"

definition call_has_key :: "heap \<Rightarrow> cref \<Rightarrow> key \<Rightarrow> error + bool" where
  "call_has_key h self k =
     (case class_of h self of
        Inl e \<Rightarrow> Inl e
      | Inr c \<Rightarrow> if c = RenderContext then render_has_key h self k else has_key h self k)"

definition contains :: "heap \<Rightarrow> cref \<Rightarrow> key \<Rightarrow> error + bool" where
  "contains h self k = call_has_key h self k"

subsection \<open>ContextDict\<close>

text \<open>
  \<^verbatim>\<open>ContextDict.__init__\<close> is the allocation and the append inside \<open>push\<close>.
  \<^verbatim>\<open>__enter__\<close> returns the dictionary itself. \<^verbatim>\<open>__exit__(self, *args, **kwargs)\<close> calls
  \<^verbatim>\<open>self.context.pop()\<close>, whatever the arguments (the exception of the block, if any), and
  returns \<^verbatim>\<open>None\<close>, so that exception is raised again by the \<^verbatim>\<open>with\<close> statement.
\<close>

definition context_dict_enter :: "heap \<Rightarrow> ref \<Rightarrow> ref" where
  "context_dict_enter h d = d"

definition context_dict_exit :: "heap \<Rightarrow> ref \<Rightarrow> error option \<Rightarrow> (error + unit) \<times> heap" where
  "context_dict_exit h d exc =
     (case deref h d of
        Inl e \<Rightarrow> (Inl e, h)
      | Inr ob \<Rightarrow>
          (case ob of
             ContextDict f c \<Rightarrow>
               (case pop h c of (Inl e, h1) \<Rightarrow> (Inl e, h1) | (Inr r, h1) \<Rightarrow> (Inr (), h1))
           | _ \<Rightarrow> (Inl AttributeError, h)))"

text \<open>
  Python's \<^verbatim>\<open>with self.push(...) as d: body\<close>: the block runs, then \<^verbatim>\<open>__exit__\<close> runs
  whether the block returned or raised; an exception of \<^verbatim>\<open>__exit__\<close> replaces the
  block's outcome.
\<close>

definition exc_of :: "error + 'a \<Rightarrow> error option" where
  "exc_of res = (case res of Inl e \<Rightarrow> Some e | Inr x \<Rightarrow> None)"

definition with_push ::
  "heap \<Rightarrow> cref \<Rightarrow> frame \<Rightarrow> (ref \<Rightarrow> heap \<Rightarrow> (error + 'a) \<times> heap) \<Rightarrow> (error + 'a) \<times> heap" where
  "with_push h self init body =
     (case push h self init of
        (Inl e, h1) \<Rightarrow> (Inl e, h1)
      | (Inr d, h1) \<Rightarrow>
          (case body (context_dict_enter h1 d) h1 of
             (res, h2) \<Rightarrow>
               (case context_dict_exit h2 d (exc_of res) of
                  (Inl e, h3) \<Rightarrow> (Inl e, h3)
                | (Inr u, h3) \<Rightarrow> (res, h3))))"

subsection \<open>Context\<close>

definition set_extra :: "heap \<Rightarrow> cref \<Rightarrow> side_state \<Rightarrow> heap" where
  "set_extra h self st =
     (case ctxs h self of
        None \<Rightarrow> h
      | Some i \<Rightarrow> h\<lparr>ctxs := (ctxs h)(self \<mapsto> i\<lparr>extra := Some st\<rparr>)\<rparr>)"

text \<open>
  \<^verbatim>\<open>Context.__init__\<close> (lines 123-130): the attributes, a new \<^verbatim>\<open>RenderContext()\<close>, then
  the constructor of \<^verbatim>\<open>BaseContext\<close>.
\<close>

definition context_init ::
  "heap \<Rightarrow> cref \<Rightarrow> ref option \<Rightarrow> pyval \<Rightarrow> pyval \<Rightarrow> pyval \<Rightarrow> pyval \<Rightarrow> heap" where
  "context_init h self dict0 ae app l10n tz =
     (let (rc, h1) = new_base h RenderContext None;
          h2 = set_extra h1 self
                 \<lparr>autoescape = ae, current_app = app, use_l10n = l10n, use_tz = tz,
                  render_context = rc\<rparr>
      in base_init h2 self dict0)"

definition new_context ::
  "heap \<Rightarrow> ref option \<Rightarrow> pyval \<Rightarrow> pyval \<Rightarrow> pyval \<Rightarrow> pyval \<Rightarrow> cref \<times> heap" where
  "new_context h dict0 ae app l10n tz =
     (let (self, h1) = new_instance h Context
      in (self, context_init h1 self dict0 ae app l10n tz))"

text \<open>
  \<^verbatim>\<open>Context.__copy__\<close> (lines 132-135). The attribute \<^verbatim>\<open>render_context\<close> holds the \<^verbatim>\<open>RenderContext\<close>
  made by \<^verbatim>\<open>__init__\<close>, whose \<^verbatim>\<open>__copy__\<close> is the one of \<^verbatim>\<open>BaseContext\<close>. An instance
  without the attribute (one that is not a \<^verbatim>\<open>Context\<close>) raises \<^verbatim>\<open>AttributeError\<close>.
\<close>

definition context_copy :: "heap \<Rightarrow> cref \<Rightarrow> (error + cref) \<times> heap" where
  "context_copy h self =
     (case base_copy h self of
        (Inl e, h1) \<Rightarrow> (Inl e, h1)
      | (Inr duplicate, h1) \<Rightarrow>
          (case ctxs h1 self of
             None \<Rightarrow> (Inl BadRef, h1)
           | Some i \<Rightarrow>
               (case extra i of
                  None \<Rightarrow> (Inl AttributeError, h1)
                | Some st \<Rightarrow>
                    (case base_copy h1 (render_context st) of
                       (Inl e, h2) \<Rightarrow> (Inl e, h2)
                     | (Inr rc, h2) \<Rightarrow>
                         (Inr duplicate,
                          set_extra h2 duplicate (st\<lparr>render_context := rc\<rparr>))))))"

text \<open>\<^verbatim>\<open>copy(obj)\<close> runs the \<^verbatim>\<open>__copy__\<close> of the object's class.\<close>

definition copy :: "heap \<Rightarrow> cref \<Rightarrow> (error + cref) \<times> heap" where
  "copy h self =
     (case class_of h self of
        Inl e \<Rightarrow> (Inl e, h)
      | Inr c \<Rightarrow>
          if c = Context \<or> c = RequestContext then context_copy h self else base_copy h self)"

text \<open>
  \<^verbatim>\<open>Context.update(other_dict)\<close> (lines 137-142). \<^verbatim>\<open>None\<close> has no \<^verbatim>\<open>__getitem__\<close>. The reference that
  is appended and returned is the argument itself.
\<close>

definition update :: "heap \<Rightarrow> cref \<Rightarrow> ref option \<Rightarrow> (error + ref) \<times> heap" where
  "update h self other_dict =
     (case other_dict of
        None \<Rightarrow> (Inl TypeError, h)
      | Some r \<Rightarrow>
          (case deref h r of
             Inl e \<Rightarrow> (Inl e, h)
           | Inr ob \<Rightarrow>
               if \<not> has_getitem ob then (Inl TypeError, h)
               else (case self_dicts h self of
                       Inl e \<Rightarrow> (Inl e, h)
                     | Inr ds \<Rightarrow> (Inr r, set_dicts h self (ds @ [r])))))"

subsection \<open>Sequences of stack operations\<close>

text \<open>
  A caller's sequence of calls on one context. A call that raises is caught by the caller,
  who goes on with the store as the call left it.
\<close>

datatype op = Push frame | Pop | SetItem key pyval | DelItem key | Update "ref option"

fun apply_op :: "heap \<Rightarrow> cref \<Rightarrow> op \<Rightarrow> heap" where
  "apply_op h self (Push init) = snd (push h self init)"
| "apply_op h self Pop = snd (pop h self)"
| "apply_op h self (SetItem k v) = snd (setitem h self k v)"
| "apply_op h self (DelItem k) = snd (delitem h self k)"
| "apply_op h self (Update d) = snd (update h self d)"

fun apply_ops :: "heap \<Rightarrow> cref \<Rightarrow> op list \<Rightarrow> heap" where
  "apply_ops h self [] = h"
| "apply_ops h self (x # xs) = apply_ops (apply_op h self x) self xs"

subsection \<open>RequestContext\<close>

text \<open>
  A context processor is a callable taking the request and returning a dictionary, or
  raising. \<^verbatim>\<open>import_string\<close> and \<^verbatim>\<open>settings.TEMPLATE_CONTEXT_PROCESSORS\<close> live outside
  this module and are parameters. The cache of \<^verbatim>\<open>lru_cache\<close> is \<open>None\<close> before the
  first successful call and holds the tuple of that call afterwards.
\<close>

definition builtin_context_processors :: "string list" where
  "builtin_context_processors = [''django.core.context_processors.csrf'']"

fun import_all :: "(string \<Rightarrow> error + 'p) \<Rightarrow> string list \<Rightarrow> error + 'p list" where
  "import_all import_string [] = Inr []"
| "import_all import_string (path # paths) =
     (case import_string path of
        Inl e \<Rightarrow> Inl e
      | Inr p \<Rightarrow>
          (case import_all import_string paths of Inl e \<Rightarrow> Inl e | Inr ps \<Rightarrow> Inr (p # ps)))"

definition get_standard_processors ::
  "(string \<Rightarrow> error + 'p) \<Rightarrow> string list \<Rightarrow> 'p list option
     \<Rightarrow> (error + 'p list) \<times> 'p list option" where
  "get_standard_processors import_string settings cache =
     (case cache of
        Some ps \<Rightarrow> (Inr ps, cache)
      | None \<Rightarrow>
          (let context_processors = builtin_context_processors @ settings
           in (case import_all import_string context_processors of
                 Inl e \<Rightarrow> (Inl e, None)
               | Inr ps \<Rightarrow> (Inr ps, Some ps))))"

text \<open>\<^verbatim>\<open>for processor in ...: updates.update(processor(request))\<close>\<close>

fun run_processors :: "'r \<Rightarrow> frame \<Rightarrow> ('r \<Rightarrow> error + frame) list \<Rightarrow> error + frame" where
  "run_processors request updates [] = Inr updates"
| "run_processors request updates (processor # ps) =
     (case processor request of
        Inl e \<Rightarrow> Inl e
      | Inr d \<Rightarrow> run_processors request (updates ++ d) ps)"

text \<open>
  \<^verbatim>\<open>RequestContext.__init__\<close> (lines 188-199). The dictionary \<^verbatim>\<open>updates\<close> is allocated before the loop;
  when a processor raises, it is left behind with no reference to it.
\<close>

definition request_context_init ::
  "(string \<Rightarrow> error + ('r \<Rightarrow> error + frame)) \<Rightarrow> string list
     \<Rightarrow> ('r \<Rightarrow> error + frame) list option
     \<Rightarrow> heap \<Rightarrow> cref \<Rightarrow> 'r \<Rightarrow> ref option \<Rightarrow> ('r \<Rightarrow> error + frame) list option
     \<Rightarrow> pyval \<Rightarrow> pyval \<Rightarrow> pyval
     \<Rightarrow> (error + unit) \<times> heap \<times> ('r \<Rightarrow> error + frame) list option" where
  "request_context_init import_string settings cache h self request dict0 processors
       app l10n tz =
     (let h1 = context_init h self dict0 PyTrue app l10n tz;
          procs = (case processors of None \<Rightarrow> [] | Some ps \<Rightarrow> ps);
          (updates, h2) = alloc_obj h1 (Dict Map.empty)
      in (case get_standard_processors import_string settings cache of
            (Inl e, cache1) \<Rightarrow> (Inl e, h2, cache1)
          | (Inr std, cache1) \<Rightarrow>
              (case run_processors request Map.empty (std @ procs) of
                 Inl e \<Rightarrow> (Inl e, h2, cache1)
               | Inr u \<Rightarrow>
                   (case update (h2\<lparr>objs := (objs h2)(updates \<mapsto> Dict u)\<rparr>) self
                           (Some updates) of
                      (Inl e, h3) \<Rightarrow> (Inl e, h3, cache1)
                    | (Inr r, h3) \<Rightarrow> (Inr (), h3, cache1)))))"

definition new_request_context ::
  "(string \<Rightarrow> error + ('r \<Rightarrow> error + frame)) \<Rightarrow> string list
     \<Rightarrow> ('r \<Rightarrow> error + frame) list option
     \<Rightarrow> heap \<Rightarrow> 'r \<Rightarrow> ref option \<Rightarrow> ('r \<Rightarrow> error + frame) list option
     \<Rightarrow> pyval \<Rightarrow> pyval \<Rightarrow> pyval
     \<Rightarrow> (error + cref) \<times> heap \<times> ('r \<Rightarrow> error + frame) list option" where
  "new_request_context import_string settings cache h request dict0 processors app l10n tz =
     (let (self, h1) = new_instance h RequestContext
      in (case request_context_init import_string settings cache h1 self request dict0
                 processors app l10n tz of
            (Inl e, h2, cache1) \<Rightarrow> (Inl e, h2, cache1)
          | (Inr u, h2, cache1) \<Rightarrow> (Inr self, h2, cache1)))"

section \<open>Predicates of the statements\<close>

subsection \<open>Well-formed stacks and stores\<close>

text \<open>
  A scope stack in the sense of the specification: every entry of \<^verbatim>\<open>dicts\<close> is a
  dictionary. \<open>frame_at\<close> reads the bindings behind a reference.
\<close>

definition is_mapping :: "heap \<Rightarrow> ref \<Rightarrow> bool" where
  "is_mapping h r = (case objs h r of None \<Rightarrow> False | Some ob \<Rightarrow> mapping_of ob \<noteq> None)"

definition frames_ok :: "heap \<Rightarrow> ref list \<Rightarrow> bool" where
  "frames_ok h ds = list_all (is_mapping h) ds"

definition frame_at :: "heap \<Rightarrow> ref \<Rightarrow> frame" where
  "frame_at h r =
     (case objs h r of
        None \<Rightarrow> Map.empty
      | Some ob \<Rightarrow> (case mapping_of ob of None \<Rightarrow> Map.empty | Some f \<Rightarrow> f))"

text \<open>
  The store's allocation invariant: every live reference, and every list reference held
  by an instance, lies below the next one to be handed out. The constructors and
  \<^verbatim>\<open>push\<close> keep it.
\<close>

definition heap_ok :: "heap \<Rightarrow> bool" where
  "heap_ok h =
     ((\<forall>r. objs h r \<noteq> None \<longrightarrow> r < next_ref h)
      \<and> (\<forall>l. lists h l \<noteq> None \<longrightarrow> l < next_lref h)
      \<and> (\<forall>c. ctxs h c \<noteq> None \<longrightarrow> c < next_cref h)
      \<and> (\<forall>c i l. ctxs h c = Some i \<and> dicts i = Some l \<longrightarrow> l < next_lref h))"

subsection \<open>The invariant of the bottom frame\<close>

text \<open>
  \<open>builtin_floor\<close> is the invariant as the specification words it: the stack is not empty
  and its bottom frame holds exactly the three literals. \<open>writes_spare_floor\<close> holds
  of a sequence of calls when no \<^verbatim>\<open>__setitem__\<close> or \<^verbatim>\<open>__delitem__\<close> of the sequence runs
  while the top entry of the stack is the bottom frame object itself.
\<close>

definition top_is_floor :: "heap \<Rightarrow> cref \<Rightarrow> bool" where
  "top_is_floor h self =
     (case self_dicts h self of Inl e \<Rightarrow> False | Inr ds \<Rightarrow> ds \<noteq> [] \<and> last ds = hd ds)"

fun writes :: "op \<Rightarrow> bool" where
  "writes (SetItem k v) = True"
| "writes (DelItem k) = True"
| "writes (Push init) = False"
| "writes Pop = False"
| "writes (Update d) = False"

fun writes_spare_floor :: "heap \<Rightarrow> cref \<Rightarrow> op list \<Rightarrow> bool" where
  "writes_spare_floor h self [] = True"
| "writes_spare_floor h self (x # xs) =
     ((\<not> writes x \<or> \<not> top_is_floor h self) \<and> writes_spare_floor (apply_op h self x) self xs)"

definition builtin_floor :: "heap \<Rightarrow> cref \<Rightarrow> bool" where
  "builtin_floor h self =
     (case self_dicts h self of
        Inl e \<Rightarrow> False
      | Inr ds \<Rightarrow> (case ds of [] \<Rightarrow> False | b # bs \<Rightarrow> objs h b = Some (Dict builtins)))"

subsection \<open>What the processors return\<close>

text \<open>
  The dictionary a processor returned; used where every processor of a list returns one.
\<close>

definition the_frame :: "error + frame \<Rightarrow> frame" where
  "the_frame res = (case res of Inl e \<Rightarrow> Map.empty | Inr d \<Rightarrow> d)"

section \<open>Example stores\<close>

text \<open>
  Each store is built by the calls a caller would make. The first context object, the
  first list and the first frame object of a store have the reference 0.
  \<^item> \<open>ex_base\<close>: \<^verbatim>\<open>c = BaseContext()\<close>, with the reference of \<open>c\<close>.
  \<^item> \<open>ex_stack\<close>: then \<^verbatim>\<open>c.push(a=1); c.push(a=2, b=3)\<close>.
  \<^item> \<open>ex_pair\<close>: beside the stack of \<open>ex_stack\<close>, a second \<^verbatim>\<open>BaseContext()\<close> with the
    single frame \<^verbatim>\<open>push(a=2, b=3)\<close>.
  \<^item> \<open>ex_plain\<close>: beside the stack of \<open>ex_stack\<close>, a plain dictionary with the bindings
    that stack flattens to.
  \<^item> \<open>ex_context\<close>: \<^verbatim>\<open>c = Context()\<close>, then a dictionary \<^verbatim>\<open>{x: 1}\<close>, the integer 5 and a
    list, none of them pushed. The \<^verbatim>\<open>RenderContext\<close> of \<open>c\<close> has the reference 1.
  \<^item> \<open>ex_merged\<close>: then \<^verbatim>\<open>c.update(d)\<close> with that dictionary.
  \<^item> \<open>ex_alias\<close>: \<^verbatim>\<open>c = Context(); d = {}; c.update(d); c.update(d)\<close>, one dictionary
    pushed twice.
  \<^item> \<open>ex_render\<close>: \<^verbatim>\<open>r = RenderContext(); r.push(x=1); r.push(y=2)\<close>.
\<close>

definition ex_base :: "cref \<times> heap" where
  "ex_base = new_base empty_heap BaseContext None"

definition ex_stack :: heap where
  "ex_stack =
     snd (push (snd (push (snd ex_base) (fst ex_base) [''a'' \<mapsto> PyInt 1])) (fst ex_base)
            [''a'' \<mapsto> PyInt 2, ''b'' \<mapsto> PyInt 3])"

definition ex_pair :: heap where
  "ex_pair =
     (let (b, h) = new_base ex_stack BaseContext None
      in snd (push h b [''a'' \<mapsto> PyInt 2, ''b'' \<mapsto> PyInt 3]))"

definition ex_plain :: heap where
  "ex_plain = snd (alloc_obj ex_stack (Dict (builtins(''a'' \<mapsto> PyInt 2, ''b'' \<mapsto> PyInt 3))))"

definition ex_context :: heap where
  "ex_context =
     (let (c, h) = new_context empty_heap None PyTrue PyNone PyNone PyNone;
          (d, h1) = alloc_obj h (Dict [''x'' \<mapsto> PyInt 1]);
          (n, h2) = alloc_obj h1 (IntObj 5);
          (l, h3) = alloc_obj h2 (ListObj [PyInt 1, PyNone])
      in h3)"

definition ex_merged :: heap where
  "ex_merged = snd (update ex_context 0 (Some 2))"

definition ex_alias :: heap where
  "ex_alias =
     (let (c, h) = new_context empty_heap None PyTrue PyNone PyNone PyNone;
          (d, h1) = alloc_obj h (Dict Map.empty);
          h2 = snd (update h1 c (Some d))
      in snd (update h2 c (Some d)))"

definition ex_render :: heap where
  "ex_render =
     (let (c, h) = new_base empty_heap RenderContext None;
          h1 = snd (push h c [''x'' \<mapsto> PyInt 1])
      in snd (push h1 c [''y'' \<mapsto> PyInt 2]))"

text \<open>
  The example of the specification for \<^verbatim>\<open>RequestContext\<close>: the built-in processor gives
  \<^verbatim>\<open>{a: 1}\<close>, the one configured in the settings \<^verbatim>\<open>{a: 2, b: 2}\<close>, the caller's
  \<^verbatim>\<open>{b: 3, c: 3}\<close>. The request is of no interest and is the unit value.
\<close>

definition ex_csrf :: "unit \<Rightarrow> error + frame" where
  "ex_csrf request = Inr [''a'' \<mapsto> PyInt 1]"

definition ex_configured :: "unit \<Rightarrow> error + frame" where
  "ex_configured request = Inr [''a'' \<mapsto> PyInt 2, ''b'' \<mapsto> PyInt 2]"

definition ex_caller :: "unit \<Rightarrow> error + frame" where
  "ex_caller request = Inr [''b'' \<mapsto> PyInt 3, ''c'' \<mapsto> PyInt 3]"

definition ex_import_string :: "string \<Rightarrow> error + (unit \<Rightarrow> error + frame)" where
  "ex_import_string path =
     (if path = ''django.core.context_processors.csrf'' then Inr ex_csrf
      else if path = ''configured'' then Inr ex_configured
      else Inl ImportError)"


section \<open>Lemmas about the model\<close>

subsection \<open>The example stores, evaluated\<close>

lemma ex_base_eval:
  "ex_base =
     (0, \<lparr>objs = [0 \<mapsto> Dict builtins], lists = [0 \<mapsto> [0]],
          ctxs = [0 \<mapsto> \<lparr>cls = BaseContext, dicts = Some 0, extra = None\<rparr>],
          next_ref = 1, next_lref = 1, next_cref = 1\<rparr>)"
  by (simp add: ex_base_def new_base_def new_instance_def alloc_ctx_def base_init_def
      reset_dicts_def alloc_obj_def alloc_list_def assign_dicts_def empty_heap_def)

lemma ex_stack_eval:
  "ex_stack =
     \<lparr>objs = [0 \<mapsto> Dict builtins, 1 \<mapsto> ContextDict [''a'' \<mapsto> PyInt 1] 0,
              2 \<mapsto> ContextDict [''a'' \<mapsto> PyInt 2, ''b'' \<mapsto> PyInt 3] 0],
      lists = [0 \<mapsto> [0, 1, 2]],
      ctxs = [0 \<mapsto> \<lparr>cls = BaseContext, dicts = Some 0, extra = None\<rparr>],
      next_ref = 3, next_lref = 1, next_cref = 1\<rparr>"
  by (simp add: ex_stack_def ex_base_eval push_def self_dicts_def dicts_ref_def alloc_obj_def
      set_dicts_def numeral_2_eq_2)

lemma ex_pair_eval:
  "ex_pair =
     \<lparr>objs = [0 \<mapsto> Dict builtins, 1 \<mapsto> ContextDict [''a'' \<mapsto> PyInt 1] 0,
              2 \<mapsto> ContextDict [''a'' \<mapsto> PyInt 2, ''b'' \<mapsto> PyInt 3] 0,
              3 \<mapsto> Dict builtins,
              4 \<mapsto> ContextDict [''a'' \<mapsto> PyInt 2, ''b'' \<mapsto> PyInt 3] 1],
      lists = [0 \<mapsto> [0, 1, 2], 1 \<mapsto> [3, 4]],
      ctxs = [0 \<mapsto> \<lparr>cls = BaseContext, dicts = Some 0, extra = None\<rparr>,
              1 \<mapsto> \<lparr>cls = BaseContext, dicts = Some 1, extra = None\<rparr>],
      next_ref = 5, next_lref = 2, next_cref = 2\<rparr>"
  by (simp add: ex_pair_def ex_stack_eval new_base_def new_instance_def alloc_ctx_def
      base_init_def reset_dicts_def push_def self_dicts_def dicts_ref_def alloc_obj_def
      alloc_list_def assign_dicts_def set_dicts_def eval_nat_numeral)

lemma ex_plain_eval:
  "ex_plain =
     \<lparr>objs = [0 \<mapsto> Dict builtins, 1 \<mapsto> ContextDict [''a'' \<mapsto> PyInt 1] 0,
              2 \<mapsto> ContextDict [''a'' \<mapsto> PyInt 2, ''b'' \<mapsto> PyInt 3] 0,
              3 \<mapsto> Dict (builtins(''a'' \<mapsto> PyInt 2, ''b'' \<mapsto> PyInt 3))],
      lists = [0 \<mapsto> [0, 1, 2]],
      ctxs = [0 \<mapsto> \<lparr>cls = BaseContext, dicts = Some 0, extra = None\<rparr>],
      next_ref = 4, next_lref = 1, next_cref = 1\<rparr>"
  by (simp add: ex_plain_def ex_stack_eval alloc_obj_def eval_nat_numeral)

lemma ex_context_eval:
  "ex_context =
     \<lparr>objs = [0 \<mapsto> Dict builtins, 1 \<mapsto> Dict builtins, 2 \<mapsto> Dict [''x'' \<mapsto> PyInt 1],
              3 \<mapsto> IntObj 5, 4 \<mapsto> ListObj [PyInt 1, PyNone]],
      lists = [0 \<mapsto> [0], 1 \<mapsto> [1]],
      ctxs = [1 \<mapsto> \<lparr>cls = RenderContext, dicts = Some 0, extra = None\<rparr>,
              0 \<mapsto> \<lparr>cls = Context, dicts = Some 1,
                       extra = Some \<lparr>autoescape = PyTrue, current_app = PyNone,
                                     use_l10n = PyNone, use_tz = PyNone,
                                     render_context = 1\<rparr>\<rparr>],
      next_ref = 5, next_lref = 2, next_cref = 2\<rparr>"
  by (simp add: ex_context_def new_context_def context_init_def set_extra_def new_base_def
      new_instance_def alloc_ctx_def base_init_def reset_dicts_def alloc_obj_def alloc_list_def
      assign_dicts_def empty_heap_def eval_nat_numeral)

lemma ex_merged_eval:
  "ex_merged =
     \<lparr>objs = [0 \<mapsto> Dict builtins, 1 \<mapsto> Dict builtins, 2 \<mapsto> Dict [''x'' \<mapsto> PyInt 1],
              3 \<mapsto> IntObj 5, 4 \<mapsto> ListObj [PyInt 1, PyNone]],
      lists = [0 \<mapsto> [0], 1 \<mapsto> [1, 2]],
      ctxs = [1 \<mapsto> \<lparr>cls = RenderContext, dicts = Some 0, extra = None\<rparr>,
              0 \<mapsto> \<lparr>cls = Context, dicts = Some 1,
                       extra = Some \<lparr>autoescape = PyTrue, current_app = PyNone,
                                     use_l10n = PyNone, use_tz = PyNone,
                                     render_context = 1\<rparr>\<rparr>],
      next_ref = 5, next_lref = 2, next_cref = 2\<rparr>"
  by (simp add: ex_merged_def ex_context_eval update_def deref_def self_dicts_def dicts_ref_def
      set_dicts_def)

lemma ex_alias_eval:
  "ex_alias =
     \<lparr>objs = [0 \<mapsto> Dict builtins, 1 \<mapsto> Dict builtins, 2 \<mapsto> Dict Map.empty],
      lists = [0 \<mapsto> [0], 1 \<mapsto> [1, 2, 2]],
      ctxs = [1 \<mapsto> \<lparr>cls = RenderContext, dicts = Some 0, extra = None\<rparr>,
              0 \<mapsto> \<lparr>cls = Context, dicts = Some 1,
                       extra = Some \<lparr>autoescape = PyTrue, current_app = PyNone,
                                     use_l10n = PyNone, use_tz = PyNone,
                                     render_context = 1\<rparr>\<rparr>],
      next_ref = 3, next_lref = 2, next_cref = 2\<rparr>"
  by (simp add: ex_alias_def new_context_def context_init_def set_extra_def new_base_def
      new_instance_def alloc_ctx_def base_init_def reset_dicts_def alloc_obj_def alloc_list_def
      assign_dicts_def set_dicts_def update_def deref_def self_dicts_def dicts_ref_def
      empty_heap_def eval_nat_numeral)

lemma ex_render_eval:
  "ex_render =
     \<lparr>objs = [0 \<mapsto> Dict builtins, 1 \<mapsto> ContextDict [''x'' \<mapsto> PyInt 1] 0,
              2 \<mapsto> ContextDict [''y'' \<mapsto> PyInt 2] 0],
      lists = [0 \<mapsto> [0, 1, 2]],
      ctxs = [0 \<mapsto> \<lparr>cls = RenderContext, dicts = Some 0, extra = None\<rparr>],
      next_ref = 3, next_lref = 1, next_cref = 1\<rparr>"
  by (simp add: ex_render_def new_base_def new_instance_def alloc_ctx_def base_init_def
      reset_dicts_def push_def self_dicts_def dicts_ref_def alloc_obj_def alloc_list_def
      assign_dicts_def set_dicts_def empty_heap_def eval_nat_numeral)

subsection \<open>Dictionaries behind references\<close>

lemma deref_mapping:
  "is_mapping h r \<Longrightarrow> \<exists>ob. deref h r = Inr ob \<and> mapping_of ob = Some (frame_at h r)"
  by (auto simp: is_mapping_def deref_def frame_at_def split: option.splits)

lemma mapping_contains: "mapping_of ob = Some f \<Longrightarrow> obj_contains ob k = Inr (f k \<noteq> None)"
  by (cases ob) auto

lemma mapping_getitem: "mapping_of ob = Some f \<Longrightarrow> obj_getitem ob k = dict_getitem f k"
  by (cases ob) auto

lemma mapping_update: "mapping_of ob = Some f \<Longrightarrow> dict_update flat ob = Inr (flat ++ f)"
  by (cases ob) auto

lemma map_add_miss: "f k = None \<Longrightarrow> (m ++ f) k = m k"
  by (simp add: map_add_def)

lemma map_add_hit: "f k = Some v \<Longrightarrow> (m ++ f) k = Some v"
  by (simp add: map_add_def)

subsection \<open>The loops over the frames\<close>

lemma flatten_frames_ok:
  "frames_ok h ds \<Longrightarrow>
   flatten_frames h flat ds = Inr (foldl (++) flat (map (frame_at h) ds))"
proof (induction ds arbitrary: flat)
  case Nil
  then show ?case by simp
next
  case (Cons r rs)
  from Cons.prems have r: "is_mapping h r" and rs: "frames_ok h rs"
    by (simp_all add: frames_ok_def)
  from deref_mapping [OF r] obtain ob where
    ob: "deref h r = Inr ob" "mapping_of ob = Some (frame_at h r)" by blast
  show ?case
    by (simp add: ob mapping_update [OF ob(2)] Cons.IH [OF rs])
qed

lemma lookup_frames_rev_ok:
  "frames_ok h ds \<Longrightarrow>
   lookup_frames h (rev ds) k = Inr (foldl (++) Map.empty (map (frame_at h) ds) k)"
proof (induction ds rule: rev_induct)
  case Nil
  then show ?case by simp
next
  case (snoc r rs)
  from snoc.prems have r: "is_mapping h r" and rs: "frames_ok h rs"
    by (simp_all add: frames_ok_def)
  from deref_mapping [OF r] obtain ob where
    ob: "deref h r = Inr ob" "mapping_of ob = Some (frame_at h r)" by blast
  show ?case
    by (cases "frame_at h r k")
      (simp_all add: ob mapping_contains [OF ob(2)] mapping_getitem [OF ob(2)]
        dict_getitem_def snoc.IH [OF rs] map_add_miss map_add_hit)
qed

lemma any_frame_has_ok:
  "frames_ok h ds \<Longrightarrow> any_frame_has h ds k = Inr (\<exists>r \<in> set ds. frame_at h r k \<noteq> None)"
proof (induction ds)
  case Nil
  then show ?case by simp
next
  case (Cons r rs)
  from Cons.prems have r: "is_mapping h r" and rs: "frames_ok h rs"
    by (simp_all add: frames_ok_def)
  from deref_mapping [OF r] obtain ob where
    ob: "deref h r = Inr ob" "mapping_of ob = Some (frame_at h r)" by blast
  show ?case
    by (cases "frame_at h r k")
      (simp_all add: ob mapping_contains [OF ob(2)] Cons.IH [OF rs])
qed

lemma foldl_map_add_last:
  "foldl (++) Map.empty fs k = Some v \<Longrightarrow>
   \<exists>j < length fs. (fs ! j) k = Some v \<and> (\<forall>m. j < m \<and> m < length fs \<longrightarrow> (fs ! m) k = None)"
proof (induction fs rule: rev_induct)
  case Nil
  then show ?case by simp
next
  case (snoc f fs)
  show ?case
  proof (cases "f k")
    case None
    with snoc.prems have "foldl (++) Map.empty fs k = Some v"
      by (simp add: map_add_miss map_add_hit)
    from snoc.IH [OF this] obtain j where
      j: "j < length fs" "(fs ! j) k = Some v"
         "\<forall>m. j < m \<and> m < length fs \<longrightarrow> (fs ! m) k = None" by blast
    have "\<forall>m. j < m \<and> m < length (fs @ [f]) \<longrightarrow> ((fs @ [f]) ! m) k = None"
      using j(3) None by (auto simp: nth_append less_Suc_eq)
    with j(1,2) show ?thesis
      by (intro exI [of _ j]) (simp add: nth_append)
  next
    case (Some w)
    with snoc.prems have "w = v" by (simp add: map_add_miss map_add_hit)
    with Some show ?thesis
      by (intro exI [of _ "length fs"]) auto
  qed
qed

lemma foldl_map_add_present:
  "f \<in> set fs \<Longrightarrow> f k \<noteq> None \<Longrightarrow> foldl (++) Map.empty fs k \<noteq> None"
proof (induction fs rule: rev_induct)
  case Nil
  then show ?case by simp
next
  case (snoc g gs)
  show ?case
  proof (cases "g k")
    case None
    with snoc show ?thesis by (auto simp: map_add_miss)
  next
    case (Some w)
    then show ?thesis by (simp add: map_add_hit)
  qed
qed

lemma getitem_ok:
  assumes "self_dicts h c = Inr ds" and "frames_ok h ds"
  shows "getitem h c k =
           (case foldl (++) Map.empty (map (frame_at h) ds) k of
              None \<Rightarrow> Inl (KeyError k)
            | Some v \<Rightarrow> Inr v)"
  by (simp add: getitem_def assms(1) lookup_frames_rev_ok [OF assms(2)])

lemma flatten_ok:
  assumes "self_dicts h c = Inr ds" and "frames_ok h ds"
  shows "flatten h c = Inr (foldl (++) Map.empty (map (frame_at h) ds))"
  by (simp add: flatten_def assms(1) flatten_frames_ok [OF assms(2)])

lemma getitem_top:
  assumes "self_dicts h c = Inr (ds @ [t])" and "objs h t = Some ob"
    and "mapping_of ob = Some f" and "f k = Some v"
  shows "getitem h c k = Inr v"
  by (simp add: getitem_def assms(1) deref_def assms(2)
      mapping_contains [OF assms(3)] mapping_getitem [OF assms(3)] assms(4) dict_getitem_def)

lemma lookup_frames_cong:
  "\<forall>r \<in> set rs. objs h' r = objs h r \<Longrightarrow> lookup_frames h' rs k = lookup_frames h rs k"
  by (induction rs) (auto simp: deref_def split: sum.splits option.splits bool.splits)

lemma any_frame_has_cong:
  "\<forall>r \<in> set rs. objs h' r = objs h r \<Longrightarrow> any_frame_has h' rs k = any_frame_has h rs k"
  by (induction rs) (auto simp: deref_def split: sum.splits option.splits bool.splits)

lemma getitem_cong:
  assumes "self_dicts h' c = Inr ds" and "self_dicts h c = Inr ds"
    and "\<forall>r \<in> set ds. objs h' r = objs h r"
  shows "getitem h' c k = getitem h c k"
proof -
  from assms(3) have "\<forall>r \<in> set (rev ds). objs h' r = objs h r" by simp
  from lookup_frames_cong [OF this] show ?thesis
    by (simp add: getitem_def assms(1,2))
qed

lemma has_key_cong:
  assumes "self_dicts h' c = Inr ds" and "self_dicts h c = Inr ds"
    and "\<forall>r \<in> set ds. objs h' r = objs h r"
  shows "has_key h' c k = has_key h c k"
  by (simp add: has_key_def assms(1,2) any_frame_has_cong [OF assms(3)])

lemma render_has_key_cong:
  assumes "self_dicts h' c = Inr ds" and "self_dicts h c = Inr ds"
    and "\<forall>r \<in> set ds. objs h' r = objs h r"
  shows "render_has_key h' c k = render_has_key h c k"
  using assms(3)
  by (simp add: render_has_key_def top_frame_def assms(1,2) deref_def)

lemma contains_cong:
  assumes "self_dicts h' c = Inr ds" and "self_dicts h c = Inr ds"
    and "\<forall>r \<in> set ds. objs h' r = objs h r" and "class_of h' c = class_of h c"
  shows "contains h' c k = contains h c k"
  by (simp add: contains_def call_has_key_def assms(4)
      has_key_cong [OF assms(1,2,3)] render_has_key_cong [OF assms(1,2,3)]
      split: sum.splits)

subsection \<open>The list behind \<^verbatim>\<open>self.dicts\<close>\<close>

text \<open>
  A change of the list in place touches neither the dictionaries nor the instances; an
  instance that holds another list does not see it.
\<close>

lemma set_dicts_objs [simp]: "objs (set_dicts h c ds) = objs h"
  by (simp add: set_dicts_def split: sum.splits)

lemma set_dicts_ctxs [simp]: "ctxs (set_dicts h c ds) = ctxs h"
  by (simp add: set_dicts_def split: sum.splits)

lemma set_dicts_next [simp]:
  "next_ref (set_dicts h c ds) = next_ref h"
  "next_lref (set_dicts h c ds) = next_lref h"
  "next_cref (set_dicts h c ds) = next_cref h"
  by (simp_all add: set_dicts_def split: sum.splits)

lemma dicts_ref_ctxs: "ctxs h' = ctxs h \<Longrightarrow> dicts_ref h' c = dicts_ref h c"
  by (simp add: dicts_ref_def)

lemma self_dicts_frame:
  "ctxs h' = ctxs h \<Longrightarrow> lists h' = lists h \<Longrightarrow> self_dicts h' c = self_dicts h c"
  by (simp add: self_dicts_def dicts_ref_def split: sum.splits option.splits)

lemma class_of_ctxs: "ctxs h' = ctxs h \<Longrightarrow> class_of h' c = class_of h c"
  by (simp add: class_of_def)

lemma deref_objs: "objs h' = objs h \<Longrightarrow> deref h' r = deref h r"
  by (simp add: deref_def)

lemma self_dicts_ref:
  "self_dicts h c = Inr ds \<Longrightarrow> \<exists>l. dicts_ref h c = Inr l \<and> lists h l = Some ds"
  by (auto simp: self_dicts_def split: sum.splits option.splits)

lemma self_dicts_set_dicts:
  "self_dicts h c = Inr ds \<Longrightarrow> self_dicts (set_dicts h c ds') c = Inr ds'"
  by (auto simp: self_dicts_def set_dicts_def dicts_ref_def split: sum.splits option.splits)

lemma self_dicts_set_dicts_other:
  assumes "dicts_ref h c = Inr l" and "dicts_ref h c' = Inr l'" and "l \<noteq> l'"
  shows "self_dicts (set_dicts h c ds) c' = self_dicts h c'"
  using assms
  by (auto simp: self_dicts_def set_dicts_def dicts_ref_def split: sum.splits option.splits)

lemma set_dicts_set_dicts:
  "set_dicts (set_dicts h c ds) c ds' = set_dicts h c ds'"
  by (auto simp: set_dicts_def dicts_ref_def split: sum.splits option.splits)

lemma set_dicts_same: "self_dicts h c = Inr ds \<Longrightarrow> set_dicts h c ds = h"
  by (auto simp: self_dicts_def set_dicts_def dicts_ref_def fun_upd_idem
      split: sum.splits option.splits)

lemma frames_ok_objs: "objs h' = objs h \<Longrightarrow> frames_ok h' ds = frames_ok h ds"
  by (simp add: frames_ok_def list_all_iff is_mapping_def)

lemma frame_at_objs: "objs h' = objs h \<Longrightarrow> frame_at h' r = frame_at h r"
  by (simp add: frame_at_def)

lemma self_dicts_frame_eq:
  "self_dicts h c = Inr ds \<Longrightarrow> ctxs h' = ctxs h \<Longrightarrow> lists h' = lists h \<Longrightarrow>
   self_dicts h' c = Inr ds"
  by (simp add: self_dicts_frame [of h' h])

lemma dicts_ref_frame_eq:
  "dicts_ref h c = Inr l \<Longrightarrow> ctxs h' = ctxs h \<Longrightarrow> dicts_ref h' c = Inr l"
  by (simp add: dicts_ref_ctxs [of h' h])

subsection \<open>The methods, step by step\<close>

lemma push_step:
  assumes "self_dicts h c = Inr ds"
  shows "push h c init =
           (Inr (next_ref h),
            set_dicts (h\<lparr>objs := (objs h)(next_ref h \<mapsto> ContextDict init c),
                        next_ref := Suc (next_ref h)\<rparr>) c (ds @ [next_ref h]))"
  using assms by (simp add: push_def alloc_obj_def)

lemma pop_step:
  assumes "self_dicts h c = Inr ds"
  shows "pop h c =
           (if length ds = 1 then (Inl ContextPopException, h)
            else if ds = [] then (Inl IndexError, h)
            else (Inr (last ds), set_dicts h c (butlast ds)))"
  using assms by (simp add: pop_def)

lemma setitem_cases:
  assumes "self_dicts h c = Inr ds"
  shows "snd (setitem h c k v) = h \<or>
         (ds \<noteq> [] \<and> (\<exists>ob. snd (setitem h c k v) = h\<lparr>objs := (objs h)(last ds \<mapsto> ob)\<rparr>))"
  using assms
  by (auto simp: setitem_def top_frame_def deref_def
      split: sum.splits option.splits prod.splits if_splits)

lemma delitem_cases:
  assumes "self_dicts h c = Inr ds"
  shows "snd (delitem h c k) = h \<or>
         (ds \<noteq> [] \<and> (\<exists>ob. snd (delitem h c k) = h\<lparr>objs := (objs h)(last ds \<mapsto> ob)\<rparr>))"
  using assms
  by (auto simp: delitem_def top_frame_def deref_def
      split: sum.splits option.splits prod.splits if_splits)

lemma setitem_mapping:
  assumes "self_dicts h c = Inr (ds @ [t])" and "is_mapping h t"
  shows "\<exists>ob'. setitem h c k v = (Inr (), h\<lparr>objs := (objs h)(t \<mapsto> ob')\<rparr>)
           \<and> mapping_of ob' = Some ((frame_at h t)(k \<mapsto> v))"
proof -
  from deref_mapping [OF assms(2)] obtain ob where
    ob: "deref h t = Inr ob" "mapping_of ob = Some (frame_at h t)" by blast
  have top: "top_frame h c = Inr (t, ob)"
    by (simp add: top_frame_def assms(1) ob(1))
  show ?thesis
  proof (cases ob)
    case (Dict g)
    with ob(2) show ?thesis
      by (intro exI [of _ "Dict (g(k \<mapsto> v))"]) (simp add: setitem_def top)
  next
    case (ContextDict g c')
    with ob(2) show ?thesis
      by (intro exI [of _ "ContextDict (g(k \<mapsto> v)) c'"]) (simp add: setitem_def top)
  next
    case (ListObj xs)
    with ob(2) show ?thesis by simp
  next
    case (IntObj n)
    with ob(2) show ?thesis by simp
  qed
qed

lemma update_cases:
  assumes "self_dicts h c = Inr ds"
  shows "update h c x = (Inl TypeError, h) \<or> update h c x = (Inl BadRef, h) \<or>
         (\<exists>r. x = Some r \<and> update h c x = (Inr r, set_dicts h c (ds @ [r])))"
  using assms
  by (auto simp: update_def deref_def split: sum.splits option.splits if_splits)

lemma push_result:
  assumes "self_dicts h c = Inr ds"
  shows "fst (push h c init) = Inr (next_ref h)"
    and "self_dicts (snd (push h c init)) c = Inr (ds @ [next_ref h])"
    and "objs (snd (push h c init)) = (objs h)(next_ref h \<mapsto> ContextDict init c)"
    and "ctxs (snd (push h c init)) = ctxs h"
proof -
  let ?g = "h\<lparr>objs := (objs h)(next_ref h \<mapsto> ContextDict init c),
               next_ref := Suc (next_ref h)\<rparr>"
  have g: "self_dicts ?g c = Inr ds"
    by (rule self_dicts_frame_eq [OF assms]) simp_all
  show "fst (push h c init) = Inr (next_ref h)"
    by (simp add: push_step [OF assms])
  show "self_dicts (snd (push h c init)) c = Inr (ds @ [next_ref h])"
    by (simp add: push_step [OF assms] self_dicts_set_dicts [OF g])
  show "objs (snd (push h c init)) = (objs h)(next_ref h \<mapsto> ContextDict init c)"
    by (simp add: push_step [OF assms])
  show "ctxs (snd (push h c init)) = ctxs h"
    by (simp add: push_step [OF assms])
qed

lemma push_other:
  assumes "self_dicts h c = Inr ds" and "dicts_ref h c = Inr l"
    and "dicts_ref h c' = Inr l'" and "l \<noteq> l'" and "self_dicts h c' = Inr ds'"
  shows "self_dicts (snd (push h c init)) c' = Inr ds'"
proof -
  let ?g = "h\<lparr>objs := (objs h)(next_ref h \<mapsto> ContextDict init c),
               next_ref := Suc (next_ref h)\<rparr>"
  have 1: "dicts_ref ?g c = Inr l" by (rule dicts_ref_frame_eq [OF assms(2)]) simp
  have 2: "dicts_ref ?g c' = Inr l'" by (rule dicts_ref_frame_eq [OF assms(3)]) simp
  have 3: "self_dicts ?g c' = Inr ds'" by (rule self_dicts_frame_eq [OF assms(5)]) simp_all
  show ?thesis
    by (simp add: push_step [OF assms(1)] self_dicts_set_dicts_other [OF 1 2 assms(4)] 3)
qed

lemma pop_other:
  assumes "self_dicts h c = Inr ds" and "dicts_ref h c = Inr l"
    and "dicts_ref h c' = Inr l'" and "l \<noteq> l'" and "self_dicts h c' = Inr ds'"
  shows "self_dicts (snd (pop h c)) c' = Inr ds'"
  by (simp add: pop_step [OF assms(1)] self_dicts_set_dicts_other [OF assms(2,3,4)] assms(5))

lemma base_copy_step:
  assumes "ctxs h c = Some i" and "self_dicts h c = Inr ds"
  shows "base_copy h c =
           (Inr (next_cref h),
            h\<lparr>ctxs := (ctxs h)(next_cref h \<mapsto> i\<lparr>dicts := Some (next_lref h)\<rparr>),
              next_cref := Suc (next_cref h),
              lists := (lists h)(next_lref h \<mapsto> ds),
              next_lref := Suc (next_lref h)\<rparr>)"
proof -
  let ?h1 = "h\<lparr>ctxs := (ctxs h)(next_cref h \<mapsto> i), next_cref := Suc (next_cref h)\<rparr>"
  have "self_dicts ?h1 c = Inr ds"
    using assms by (auto simp: self_dicts_def dicts_ref_def split: option.splits)
  then show ?thesis
    using assms(1) by (simp add: base_copy_def alloc_ctx_def alloc_list_def assign_dicts_def)
qed

lemma context_copy_step:
  assumes "ctxs h c = Some i" and "extra i = Some st" and "self_dicts h c = Inr ds"
    and "ctxs h (render_context st) = Some ri"
    and "dicts ri = Some lr" and "lists h lr = Some rds" and "lr \<noteq> next_lref h"
    and "c < next_cref h" and "render_context st < next_cref h"
  shows "context_copy h c =
           (Inr (next_cref h),
            h\<lparr>ctxs := (ctxs h)
                 (Suc (next_cref h) \<mapsto> ri\<lparr>dicts := Some (Suc (next_lref h))\<rparr>,
                  next_cref h \<mapsto>
                    i\<lparr>dicts := Some (next_lref h),
                      extra := Some (st\<lparr>render_context := Suc (next_cref h)\<rparr>)\<rparr>),
              next_cref := Suc (Suc (next_cref h)),
              lists := (lists h)(next_lref h \<mapsto> ds, Suc (next_lref h) \<mapsto> rds),
              next_lref := Suc (Suc (next_lref h))\<rparr>)"
proof -
  let ?n = "next_cref h"
  let ?l = "next_lref h"
  let ?h1 = "h\<lparr>ctxs := (ctxs h)(?n \<mapsto> i\<lparr>dicts := Some ?l\<rparr>), next_cref := Suc ?n,
                lists := (lists h)(?l \<mapsto> ds), next_lref := Suc ?l\<rparr>"
  have 1: "base_copy h c = (Inr ?n, ?h1)" by (rule base_copy_step [OF assms(1,3)])
  have ne: "c \<noteq> ?n" "render_context st \<noteq> ?n" using assms(8,9) by simp_all
  have c1: "ctxs ?h1 c = Some i" using ne assms(1) by simp
  have r1: "ctxs ?h1 (render_context st) = Some ri" using ne assms(4) by simp
  have rd1: "self_dicts ?h1 (render_context st) = Inr rds"
    using ne assms(4,5,6,7)
    by (auto simp: self_dicts_def dicts_ref_def)
  note 2 = base_copy_step [OF r1 rd1]
  show ?thesis
    using ne assms(1,4)
    by (simp add: context_copy_def 1 assms(2) 2 set_extra_def fun_upd_twist)
qed

lemma context_init_result:
  assumes "ctxs h self = Some i" and "self \<noteq> next_cref h"
  shows "self_dicts (context_init h self dict0 ae app l10n tz) self
           = Inr (case dict0 of None \<Rightarrow> [Suc (next_ref h)] | Some v \<Rightarrow> [Suc (next_ref h), v])"
    and "class_of (context_init h self dict0 ae app l10n tz) self = Inr (cls i)"
    and "objs (context_init h self dict0 ae app l10n tz)
           = (objs h)(next_ref h \<mapsto> Dict builtins, Suc (next_ref h) \<mapsto> Dict builtins)"
    and "next_ref (context_init h self dict0 ae app l10n tz) = Suc (Suc (next_ref h))"
  using assms
  by (cases dict0;
      simp add: context_init_def new_base_def new_instance_def alloc_ctx_def base_init_def
        reset_dicts_def alloc_obj_def alloc_list_def assign_dicts_def set_dicts_def
        set_extra_def self_dicts_def dicts_ref_def class_of_def)+

subsection \<open>The allocation invariant\<close>

lemma heap_ok_empty: "heap_ok empty_heap"
  by (simp add: heap_ok_def empty_heap_def)

lemma heap_ok_alloc_obj: "heap_ok h \<Longrightarrow> heap_ok (snd (alloc_obj h ob))"
  by (auto simp: heap_ok_def alloc_obj_def less_Suc_eq)

lemma heap_ok_alloc_list: "heap_ok h \<Longrightarrow> heap_ok (snd (alloc_list h ds))"
  by (auto simp: heap_ok_def alloc_list_def less_Suc_eq)

lemma heap_ok_set_dicts: "heap_ok h \<Longrightarrow> heap_ok (set_dicts h c ds)"
  by (auto simp: heap_ok_def set_dicts_def dicts_ref_def split: option.splits sum.splits)

lemma heap_ok_push: "heap_ok h \<Longrightarrow> heap_ok (snd (push h c init))"
  by (auto simp: push_def self_dicts_def alloc_obj_def set_dicts_def dicts_ref_def heap_ok_def
      less_Suc_eq split: option.splits sum.splits)

text \<open>
  In a store that satisfies the invariant, the frame made by \<^verbatim>\<open>push\<close> is an object that
  occurs nowhere in the stack below it.
\<close>

lemma push_top_fresh:
  assumes "heap_ok h" and "self_dicts h c = Inr ds" and "\<forall>r \<in> set ds. objs h r \<noteq> None"
  shows "fst (push h c init) = Inr (next_ref h)
       \<and> self_dicts (snd (push h c init)) c = Inr (ds @ [next_ref h])
       \<and> next_ref h \<notin> set ds"
proof -
  let ?h0 = "h\<lparr>objs := (objs h)(next_ref h \<mapsto> ContextDict init c),
                next_ref := Suc (next_ref h)\<rparr>"
  have d0: "self_dicts ?h0 c = Inr ds"
    using assms(2) by (simp add: self_dicts_frame [of ?h0 h])
  have "next_ref h \<notin> set ds"
    using assms(1,3) by (fastforce simp: heap_ok_def)
  then show ?thesis
    by (simp add: push_step [OF assms(2)] self_dicts_set_dicts [OF d0])
qed


section \<open>The claims\<close>

subsection \<open>C1: lookup and flatten agree on the most recent frame\<close>

text \<open>
  Claim C1. On a stack whose frames are all dictionaries, for a key \<open>k\<close> bound in at
  least one frame, there is a frame index \<open>j\<close> that binds \<open>k\<close> to a value \<open>v\<close> while no
  frame above \<open>j\<close> (pushed later) binds \<open>k\<close>; \<^verbatim>\<open>__getitem__\<close> returns that \<open>v\<close>, and
  \<^verbatim>\<open>flatten\<close> succeeds with a dictionary that binds \<open>k\<close> to the same \<open>v\<close>.
\<close>

theorem shadowing_order:
  assumes "self_dicts h c = Inr ds" and "frames_ok h ds"
    and "\<exists>r \<in> set ds. frame_at h r k \<noteq> None"
  shows "\<exists>j v flat. j < length ds \<and> frame_at h (ds ! j) k = Some v
           \<and> (\<forall>m. j < m \<and> m < length ds \<longrightarrow> frame_at h (ds ! m) k = None)
           \<and> getitem h c k = Inr v
           \<and> flatten h c = Inr flat \<and> flat k = Some v"
proof -
  let ?fs = "map (frame_at h) ds"
  let ?flat = "foldl (++) Map.empty ?fs"
  from assms(3) obtain r where "r \<in> set ds" "frame_at h r k \<noteq> None" by blast
  then have "?flat k \<noteq> None"
    by (intro foldl_map_add_present [of "frame_at h r"]) auto
  then obtain v where v: "?flat k = Some v" by blast
  from foldl_map_add_last [OF v] obtain j where
    j: "j < length ds" "frame_at h (ds ! j) k = Some v"
       "\<forall>m. j < m \<and> m < length ds \<longrightarrow> frame_at h (ds ! m) k = None"
    by auto
  have g: "getitem h c k = Inr v"
    by (simp add: getitem_ok [OF assms(1,2)] v)
  have f: "flatten h c = Inr ?flat"
    by (rule flatten_ok [OF assms(1,2)])
  from j g f v show ?thesis by blast
qed

text \<open>
  The theorem at the stack \<^verbatim>\<open>[builtins, {a: 1}, {a: 2, b: 3}]\<close> and the key \<^verbatim>\<open>a\<close>, where
  the lookup evaluates to 2.
\<close>

theorem shadowing_order_witness:
  "self_dicts ex_stack 0 = Inr [0, 1, 2]
   \<and> frames_ok ex_stack [0, 1, 2]
   \<and> (\<exists>r \<in> set [0, 1, 2]. frame_at ex_stack r ''a'' \<noteq> None)
   \<and> getitem ex_stack 0 ''a'' = Inr (PyInt 2)
   \<and> (\<exists>j v flat. j < length [0, 1, 2 :: nat]
         \<and> frame_at ex_stack ([0, 1, 2] ! j) ''a'' = Some v
         \<and> (\<forall>m. j < m \<and> m < length [0, 1, 2 :: nat]
               \<longrightarrow> frame_at ex_stack ([0, 1, 2] ! m) ''a'' = None)
         \<and> getitem ex_stack 0 ''a'' = Inr v
         \<and> flatten ex_stack 0 = Inr flat \<and> flat ''a'' = Some v)"
proof -
  have a: "self_dicts ex_stack 0 = Inr [0, 1, 2]"
    by (simp add: ex_stack_eval self_dicts_def dicts_ref_def)
  have b: "frames_ok ex_stack [0, 1, 2]"
    by (simp add: ex_stack_eval frames_ok_def is_mapping_def)
  have c: "\<exists>r \<in> set [0, 1, 2]. frame_at ex_stack r ''a'' \<noteq> None"
    by (simp add: ex_stack_eval frame_at_def)
  have d: "getitem ex_stack 0 ''a'' = Inr (PyInt 2)"
    by (simp add: ex_stack_eval getitem_def self_dicts_def dicts_ref_def deref_def
        dict_getitem_def)
  from shadowing_order [OF a b c] a b c d show ?thesis by simp
qed

subsection \<open>C2: underflow and the bottom frame\<close>

lemma apply_op_floor:
  assumes "self_dicts h c = Inr (b # bs)" and "b < next_ref h"
  shows "\<exists>bs'. self_dicts (apply_op h c x) c = Inr (b # bs')
           \<and> b < next_ref (apply_op h c x)
           \<and> (\<not> writes x \<or> \<not> top_is_floor h c \<longrightarrow> objs (apply_op h c x) b = objs h b)"
proof (cases x)
  case (Push init)
  let ?h1 = "h\<lparr>objs := (objs h)(next_ref h \<mapsto> ContextDict init c),
                next_ref := Suc (next_ref h)\<rparr>"
  have "self_dicts ?h1 c = Inr (b # bs)"
    using assms(1) by (simp add: self_dicts_frame [of ?h1 h])
  from self_dicts_set_dicts [OF this] show ?thesis
    using assms(2) Push by (simp add: push_step [OF assms(1)])
next
  case Pop
  show ?thesis
  proof (cases bs rule: rev_cases)
    case Nil
    then show ?thesis using assms Pop by (simp add: pop_step [OF assms(1)])
  next
    case (snoc ys y)
    then show ?thesis using assms Pop self_dicts_set_dicts [OF assms(1), of "b # ys"]
      by (simp add: pop_step [OF assms(1)] butlast_append)
  qed
next
  case (SetItem k v)
  from setitem_cases [OF assms(1), of k v] show ?thesis
    using assms SetItem
    by (auto simp: top_is_floor_def self_dicts_frame [of "h\<lparr>objs := x\<rparr>" h for x])
next
  case (DelItem k)
  from delitem_cases [OF assms(1), of k] show ?thesis
    using assms DelItem
    by (auto simp: top_is_floor_def self_dicts_frame [of "h\<lparr>objs := x\<rparr>" h for x])
next
  case (Update d)
  from update_cases [OF assms(1), of d] show ?thesis
    using assms Update self_dicts_set_dicts [OF assms(1)] by auto
qed

lemma apply_ops_floor:
  assumes "self_dicts h c = Inr (b # bs)" and "b < next_ref h"
  shows "\<exists>bs'. self_dicts (apply_ops h c ops) c = Inr (b # bs')
           \<and> (writes_spare_floor h c ops \<longrightarrow> objs (apply_ops h c ops) b = objs h b)"
  using assms
proof (induction ops arbitrary: h bs)
  case Nil
  then show ?case by simp
next
  case (Cons x xs)
  from apply_op_floor [OF Cons.prems, of x] obtain bs1 where
    s: "self_dicts (apply_op h c x) c = Inr (b # bs1)" "b < next_ref (apply_op h c x)"
       "\<not> writes x \<or> \<not> top_is_floor h c \<longrightarrow> objs (apply_op h c x) b = objs h b"
    by blast
  from Cons.IH [OF s(1,2)] obtain bs2 where
    t: "self_dicts (apply_ops (apply_op h c x) c xs) c = Inr (b # bs2)"
       "writes_spare_floor (apply_op h c x) c xs \<longrightarrow>
          objs (apply_ops (apply_op h c x) c xs) b = objs (apply_op h c x) b"
    by blast
  from s(3) t show ?case by auto
qed

text \<open>
  Claim C2, as amended. On a stack with bottom frame object \<open>b\<close>: \<^verbatim>\<open>pop\<close> on a stack of
  exactly one frame raises \<^verbatim>\<open>ContextPopException\<close> and leaves the store as it was; after
  any sequence of push, pop, set, delete and update calls the stack is not empty and its
  bottom entry is still the object \<open>b\<close>; and the contents of \<open>b\<close> are as before when no
  set or delete of the sequence ran while \<open>b\<close> was itself the top entry.
\<close>

theorem floor_kept:
  assumes "self_dicts h c = Inr (b # bs)" and "b < next_ref h"
  shows "(bs = [] \<longrightarrow> pop h c = (Inl ContextPopException, h))
       \<and> (\<exists>bs'. self_dicts (apply_ops h c ops) c = Inr (b # bs'))
       \<and> (writes_spare_floor h c ops \<longrightarrow> objs (apply_ops h c ops) b = objs h b)"
proof -
  have "bs = [] \<longrightarrow> pop h c = (Inl ContextPopException, h)"
    by (simp add: pop_step [OF assms(1)])
  with apply_ops_floor [OF assms, of ops] show ?thesis by blast
qed

text \<open>
  The claim as worded fails: \<^verbatim>\<open>c = BaseContext(); c['x'] = 1\<close> writes into the only
  frame there is, the bottom one, which then no longer holds exactly the three literals.
\<close>

theorem floor_contents_counterexample:
  "builtin_floor (snd ex_base) (fst ex_base)
   \<and> \<not> builtin_floor (apply_ops (snd ex_base) (fst ex_base) [SetItem ''x'' (PyInt 1)]) (fst ex_base)"
  by (auto simp: ex_base_eval builtin_floor_def self_dicts_def dicts_ref_def setitem_def
      top_frame_def deref_def builtins_def dest: fun_cong [of _ _ "''x''"])

text \<open>
  The amended statement at a new \<^verbatim>\<open>BaseContext()\<close> and the calls push, set, pop, pop.
\<close>

theorem floor_kept_witness:
  "self_dicts (snd ex_base) 0 = Inr [0]
   \<and> 0 < next_ref (snd ex_base)
   \<and> writes_spare_floor (snd ex_base) 0 [Push Map.empty, SetItem ''x'' (PyInt 1), Pop, Pop]
   \<and> pop (snd ex_base) 0 = (Inl ContextPopException, snd ex_base)
   \<and> (\<exists>bs'. self_dicts (apply_ops (snd ex_base) 0
                  [Push Map.empty, SetItem ''x'' (PyInt 1), Pop, Pop]) 0 = Inr (0 # bs'))
   \<and> objs (apply_ops (snd ex_base) 0 [Push Map.empty, SetItem ''x'' (PyInt 1), Pop, Pop]) 0
       = Some (Dict builtins)"
proof -
  have a: "self_dicts (snd ex_base) 0 = Inr (0 # [])"
    by (simp add: ex_base_eval self_dicts_def dicts_ref_def)
  have c: "0 < next_ref (snd ex_base)" by (simp add: ex_base_eval)
  have d: "writes_spare_floor (snd ex_base) 0 [Push Map.empty, SetItem ''x'' (PyInt 1), Pop, Pop]"
    by (simp add: ex_base_eval top_is_floor_def self_dicts_def dicts_ref_def push_def
        alloc_obj_def set_dicts_def setitem_def top_frame_def deref_def pop_def)
  have e: "objs (snd ex_base) 0 = Some (Dict builtins)" by (simp add: ex_base_eval)
  from floor_kept [OF a c, of "[Push Map.empty, SetItem ''x'' (PyInt 1), Pop, Pop]"] a c d e
  show ?thesis by simp
qed

subsection \<open>C3: equality is equality of the flattened stacks\<close>

text \<open>
  Claim C3. For two stacks whose frames are all dictionaries, both \<^verbatim>\<open>flatten\<close> calls
  succeed and \<^verbatim>\<open>__eq__\<close> returns whether the two flattened dictionaries are equal;
  the lists of frames themselves are not compared.
\<close>

theorem equals_iff_flatten:
  assumes "self_dicts h a = Inr da" and "frames_ok h da"
    and "self_dicts h b = Inr db" and "frames_ok h db"
  shows "\<exists>fa fb. flatten h a = Inr fa \<and> flatten h b = Inr fb \<and> eq h a (Ctx b) = Inr (fa = fb)"
  by (simp add: flatten_ok [OF assms(1,2)] flatten_ok [OF assms(3,4)])

text \<open>
  The theorem at \<^verbatim>\<open>[builtins, {a: 1}, {a: 2, b: 3}]\<close> and \<^verbatim>\<open>[builtins, {a: 2, b: 3}]\<close>:
  three frames against two, and \<^verbatim>\<open>__eq__\<close> evaluates to \<^verbatim>\<open>True\<close>.
\<close>

theorem equals_iff_flatten_witness:
  "self_dicts ex_pair 0 = Inr [0, 1, 2]
   \<and> frames_ok ex_pair [0, 1, 2]
   \<and> self_dicts ex_pair 1 = Inr [3, 4]
   \<and> frames_ok ex_pair [3, 4]
   \<and> eq ex_pair 0 (Ctx 1) = Inr True
   \<and> (\<exists>fa fb. flatten ex_pair 0 = Inr fa \<and> flatten ex_pair 1 = Inr fb
         \<and> eq ex_pair 0 (Ctx 1) = Inr (fa = fb))"
proof -
  have a: "self_dicts ex_pair 0 = Inr [0, 1, 2]"
    by (simp add: ex_pair_eval self_dicts_def dicts_ref_def)
  have b: "frames_ok ex_pair [0, 1, 2]"
    by (simp add: ex_pair_eval frames_ok_def is_mapping_def)
  have c: "self_dicts ex_pair 1 = Inr [3, 4]"
    by (simp add: ex_pair_eval self_dicts_def dicts_ref_def)
  have d: "frames_ok ex_pair [3, 4]"
    by (simp add: ex_pair_eval frames_ok_def is_mapping_def)
  have e: "eq ex_pair 0 (Ctx 1) = Inr True"
    by (simp add: ex_pair_eval flatten_def self_dicts_def dicts_ref_def deref_def)
  from equals_iff_flatten [OF a b c d] a b c d e show ?thesis by simp
qed

subsection \<open>C4: set, then pop\<close>

text \<open>
  Claim C4, as amended. On a stack of at least two frames, all dictionaries, whose top
  frame object \<open>t\<close> occurs nowhere lower in the stack (as for a frame made by
  \<^verbatim>\<open>push\<close>): \<^verbatim>\<open>c[k] = v\<close> and then \<^verbatim>\<open>c.pop()\<close> both succeed, the pop returns \<open>t\<close>,
  the frames left are the lower ones, no object other than \<open>t\<close> has changed, and
  \<^verbatim>\<open>c[k]\<close> is what it was on the stack without \<open>t\<close>: the value of the topmost lower
  frame binding \<open>k\<close>, or \<^verbatim>\<open>KeyError\<close> when none does.
\<close>

theorem set_then_pop_restores:
  assumes "self_dicts h c = Inr (ds @ [t])" and "ds \<noteq> []"
    and "frames_ok h (ds @ [t])" and "t \<notin> set ds"
  shows "\<exists>h1 h2. setitem h c k v = (Inr (), h1) \<and> pop h1 c = (Inr t, h2)
           \<and> self_dicts h2 c = Inr ds
           \<and> (\<forall>r. r \<noteq> t \<longrightarrow> objs h2 r = objs h r)
           \<and> getitem h2 c k = getitem (set_dicts h c ds) c k
           \<and> getitem h2 c k =
               (case foldl (++) Map.empty (map (frame_at h) ds) k of
                  None \<Rightarrow> Inl (KeyError k)
                | Some w \<Rightarrow> Inr w)"
proof -
  from assms(3) have t: "is_mapping h t" and dsok: "frames_ok h ds"
    by (simp_all add: frames_ok_def)
  from setitem_mapping [OF assms(1) t, of k v] obtain ob' where
    s: "setitem h c k v = (Inr (), h\<lparr>objs := (objs h)(t \<mapsto> ob')\<rparr>)" by blast
  let ?h1 = "h\<lparr>objs := (objs h)(t \<mapsto> ob')\<rparr>"
  let ?h2 = "set_dicts ?h1 c ds"
  have d1: "self_dicts ?h1 c = Inr (ds @ [t])"
    using assms(1) by (simp add: self_dicts_frame [of ?h1 h])
  have p: "pop ?h1 c = (Inr t, ?h2)"
    using assms(2) by (simp add: pop_step [OF d1])
  have d: "self_dicts ?h2 c = Inr ds" by (rule self_dicts_set_dicts [OF d1])
  have o: "\<forall>r. r \<noteq> t \<longrightarrow> objs ?h2 r = objs h r" by simp
  let ?h0 = "set_dicts h c ds"
  have d0: "self_dicts ?h0 c = Inr ds" by (rule self_dicts_set_dicts [OF assms(1)])
  have same: "\<forall>r \<in> set ds. objs ?h2 r = objs ?h0 r"
    using assms(4) by auto
  have g: "getitem ?h2 c k = getitem ?h0 c k"
    by (rule getitem_cong [OF d d0 same])
  have fr: "map (frame_at ?h0) ds = map (frame_at h) ds"
    by (simp add: frame_at_objs [of ?h0 h])
  have ok0: "frames_ok ?h0 ds"
    using dsok by (simp add: frames_ok_objs [of ?h0 h])
  have g0: "getitem ?h0 c k =
              (case foldl (++) Map.empty (map (frame_at h) ds) k of
                 None \<Rightarrow> Inl (KeyError k)
               | Some w \<Rightarrow> Inr w)"
    using getitem_ok [OF d0 ok0, of k] by (simp only: fr)
  show ?thesis
    by (intro exI [of _ ?h1] exI [of _ ?h2]) (intro conjI s p d o g, simp only: g g0)
qed

text \<open>
  The claim as worded fails when the top frame object also sits lower in the stack:
  after \<^verbatim>\<open>c.update(d); c.update(d)\<close> the key \<^verbatim>\<open>k\<close> is bound nowhere, and after
  \<^verbatim>\<open>c['k'] = 1; c.pop()\<close> the lookup returns 1 instead of raising \<^verbatim>\<open>KeyError\<close>.
\<close>

theorem set_then_pop_counterexample:
  "self_dicts ex_alias 0 = Inr [1, 2, 2]
   \<and> getitem ex_alias 0 ''k'' = Inl (KeyError ''k'')
   \<and> fst (setitem ex_alias 0 ''k'' (PyInt 1)) = Inr ()
   \<and> fst (pop (snd (setitem ex_alias 0 ''k'' (PyInt 1))) 0) = Inr 2
   \<and> getitem (snd (pop (snd (setitem ex_alias 0 ''k'' (PyInt 1))) 0)) 0 ''k'' = Inr (PyInt 1)"
  by (simp add: ex_alias_eval self_dicts_def dicts_ref_def getitem_def deref_def setitem_def
      top_frame_def pop_def set_dicts_def dict_getitem_def builtins_def)

text \<open>
  The amended statement at \<^verbatim>\<open>[builtins, {a: 1}, {a: 2, b: 3}]\<close>, whose top frame was
  made by \<^verbatim>\<open>push\<close>: after \<^verbatim>\<open>c['a'] = 7; c.pop()\<close> the lookup of \<^verbatim>\<open>a\<close> gives 1.
\<close>

theorem set_then_pop_restores_witness:
  "self_dicts ex_stack 0 = Inr ([0, 1] @ [2])
   \<and> frames_ok ex_stack ([0, 1] @ [2])
   \<and> 2 \<notin> set [0, 1 :: nat]
   \<and> getitem ex_stack 0 ''a'' = Inr (PyInt 2)
   \<and> (\<exists>h1 h2. setitem ex_stack 0 ''a'' (PyInt 7) = (Inr (), h1) \<and> pop h1 0 = (Inr 2, h2)
         \<and> self_dicts h2 0 = Inr [0, 1]
         \<and> getitem h2 0 ''a'' = Inr (PyInt 1))"
proof -
  have a: "self_dicts ex_stack 0 = Inr ([0, 1] @ [2])"
    by (simp add: ex_stack_eval self_dicts_def dicts_ref_def)
  have c: "[0, 1 :: nat] \<noteq> []" by simp
  have d: "frames_ok ex_stack ([0, 1] @ [2])"
    by (simp add: ex_stack_eval frames_ok_def is_mapping_def)
  have e: "2 \<notin> set [0, 1 :: nat]" by simp
  have f: "getitem ex_stack 0 ''a'' = Inr (PyInt 2)"
    by (simp add: ex_stack_eval getitem_def self_dicts_def dicts_ref_def deref_def
        dict_getitem_def)
  have g: "foldl (++) Map.empty (map (frame_at ex_stack) [0, 1]) ''a'' = Some (PyInt 1)"
    by (simp add: ex_stack_eval frame_at_def builtins_def)
  from set_then_pop_restores [OF a c d e, of "''a''" "PyInt 7"] obtain h1 h2 where
    r: "setitem ex_stack 0 ''a'' (PyInt 7) = (Inr (), h1)" "pop h1 0 = (Inr 2, h2)"
    "self_dicts h2 0 = Inr [0, 1]"
    "getitem h2 0 ''a'' =
       (case foldl (++) Map.empty (map (frame_at ex_stack) [0, 1]) ''a'' of
          None \<Rightarrow> Inl (KeyError ''a'')
        | Some w \<Rightarrow> Inr w)"
    by blast
  from r(4) g have r4: "getitem h2 0 ''a'' = Inr (PyInt 1)" by simp
  have "\<exists>h1 h2. setitem ex_stack 0 ''a'' (PyInt 7) = (Inr (), h1) \<and> pop h1 0 = (Inr 2, h2)
         \<and> self_dicts h2 0 = Inr [0, 1]
         \<and> getitem h2 0 ''a'' = Inr (PyInt 1)"
    by (intro exI [of _ h1] exI [of _ h2] conjI r(1,2,3) r4)
  then show ?thesis by (intro conjI a d e f)
qed

subsection \<open>C5: update and its argument\<close>

text \<open>
  Claim C5, as amended. \<^verbatim>\<open>update\<close> raises \<^verbatim>\<open>TypeError\<close> and leaves the store as it was
  when the argument has no item access at all: \<^verbatim>\<open>None\<close>, or an integer. When the argument
  has item access, as every dictionary has but also a list, \<^verbatim>\<open>update\<close> returns the
  reference it was given, and the only change to the store is that this same reference is
  appended to the list behind \<^verbatim>\<open>self.dicts\<close>: no object is allocated, copied or changed.
\<close>

theorem update_accepts_item_access:
  assumes "self_dicts h c = Inr ds"
  shows "update h c None = (Inl TypeError, h)
       \<and> (\<forall>r n. objs h r = Some (IntObj n) \<longrightarrow> update h c (Some r) = (Inl TypeError, h))
       \<and> (\<forall>r. is_mapping h r \<or> (\<exists>xs. objs h r = Some (ListObj xs)) \<longrightarrow>
             update h c (Some r) = (Inr r, set_dicts h c (ds @ [r]))
             \<and> self_dicts (set_dicts h c (ds @ [r])) c = Inr (ds @ [r])
             \<and> objs (set_dicts h c (ds @ [r])) = objs h
             \<and> ctxs (set_dicts h c (ds @ [r])) = ctxs h
             \<and> next_ref (set_dicts h c (ds @ [r])) = next_ref h)"
proof -
  have a: "update h c None = (Inl TypeError, h)" by (simp add: update_def)
  have b: "\<forall>r n. objs h r = Some (IntObj n) \<longrightarrow> update h c (Some r) = (Inl TypeError, h)"
    by (simp add: update_def deref_def)
  have g: "has_getitem ob" if "mapping_of ob \<noteq> None \<or> (\<exists>xs. ob = ListObj xs)" for ob
    using that by (cases ob) auto
  have c: "\<forall>r. is_mapping h r \<or> (\<exists>xs. objs h r = Some (ListObj xs)) \<longrightarrow>
             update h c (Some r) = (Inr r, set_dicts h c (ds @ [r]))
             \<and> self_dicts (set_dicts h c (ds @ [r])) c = Inr (ds @ [r])
             \<and> objs (set_dicts h c (ds @ [r])) = objs h
             \<and> ctxs (set_dicts h c (ds @ [r])) = ctxs h
             \<and> next_ref (set_dicts h c (ds @ [r])) = next_ref h"
  proof (intro allI impI)
    fix r
    assume "is_mapping h r \<or> (\<exists>xs. objs h r = Some (ListObj xs))"
    then obtain ob where ob: "objs h r = Some ob"
      "mapping_of ob \<noteq> None \<or> (\<exists>xs. ob = ListObj xs)"
      by (auto simp: is_mapping_def split: option.splits)
    have "update h c (Some r) = (Inr r, set_dicts h c (ds @ [r]))"
      by (simp add: update_def deref_def ob(1) g [OF ob(2)] assms)
    then show "update h c (Some r) = (Inr r, set_dicts h c (ds @ [r]))
             \<and> self_dicts (set_dicts h c (ds @ [r])) c = Inr (ds @ [r])
             \<and> objs (set_dicts h c (ds @ [r])) = objs h
             \<and> ctxs (set_dicts h c (ds @ [r])) = ctxs h
             \<and> next_ref (set_dicts h c (ds @ [r])) = next_ref h"
      by (simp add: self_dicts_set_dicts [OF assms])
  qed
  from a b c show ?thesis by blast
qed

text \<open>
  The claim as worded fails: the test of line 139 asks for \<^verbatim>\<open>__getitem__\<close>, not for a
  read by key. The list \<^verbatim>\<open>[1, None]\<close> cannot be read by the key \<^verbatim>\<open>'x'\<close>, yet
  \<^verbatim>\<open>c.update([1, None])\<close> succeeds and makes the list the top frame, after which
  \<^verbatim>\<open>c.flatten()\<close> raises \<^verbatim>\<open>TypeError\<close>.
\<close>

theorem update_accepts_list_counterexample:
  "objs ex_context 4 = Some (ListObj [PyInt 1, PyNone])
   \<and> \<not> is_mapping ex_context 4
   \<and> obj_getitem (ListObj [PyInt 1, PyNone]) ''x'' = Inl TypeError
   \<and> fst (update ex_context 0 (Some 4)) = Inr 4
   \<and> self_dicts (snd (update ex_context 0 (Some 4))) 0 = Inr [1, 4]
   \<and> flatten (snd (update ex_context 0 (Some 4))) 0 = Inl TypeError"
  by (simp add: ex_context_eval is_mapping_def update_def deref_def self_dicts_def dicts_ref_def
      set_dicts_def flatten_def)

text \<open>
  The amended statement at \<^verbatim>\<open>None\<close> and at an integer (both refused), at a dictionary and
  at the list \<^verbatim>\<open>[1, None]\<close> (both accepted).
\<close>

theorem update_accepts_item_access_witness:
  "self_dicts ex_context 0 = Inr [1]
   \<and> update ex_context 0 None = (Inl TypeError, ex_context)
   \<and> objs ex_context 3 = Some (IntObj 5)
   \<and> update ex_context 0 (Some 3) = (Inl TypeError, ex_context)
   \<and> is_mapping ex_context 2
   \<and> update ex_context 0 (Some 2) = (Inr 2, set_dicts ex_context 0 ([1] @ [2]))
   \<and> self_dicts (set_dicts ex_context 0 ([1] @ [2])) 0 = Inr ([1] @ [2])
   \<and> objs (set_dicts ex_context 0 ([1] @ [2])) = objs ex_context
   \<and> objs ex_context 4 = Some (ListObj [PyInt 1, PyNone])
   \<and> update ex_context 0 (Some 4) = (Inr 4, set_dicts ex_context 0 ([1] @ [4]))"
proof -
  have a: "self_dicts ex_context 0 = Inr [1]"
    by (simp add: ex_context_eval self_dicts_def dicts_ref_def)
  have n: "objs ex_context 3 = Some (IntObj 5)" by (simp add: ex_context_eval)
  have m: "is_mapping ex_context 2" by (simp add: ex_context_eval is_mapping_def)
  have l: "objs ex_context 4 = Some (ListObj [PyInt 1, PyNone])" by (simp add: ex_context_eval)
  note t = update_accepts_item_access [OF a]
  from t have 1: "update ex_context 0 None = (Inl TypeError, ex_context)" by blast
  from t n have 2: "update ex_context 0 (Some 3) = (Inl TypeError, ex_context)" by blast
  from t m have 3: "update ex_context 0 (Some 2) = (Inr 2, set_dicts ex_context 0 ([1] @ [2]))"
    "self_dicts (set_dicts ex_context 0 ([1] @ [2])) 0 = Inr ([1] @ [2])"
    "objs (set_dicts ex_context 0 ([1] @ [2])) = objs ex_context"
    by blast+
  from t l have 4: "update ex_context 0 (Some 4) = (Inr 4, set_dicts ex_context 0 ([1] @ [4]))"
    by blast
  show ?thesis by (intro conjI a 1 n 2 m 3 l 4)
qed

subsection \<open>C6: a RenderContext reads its top frame only\<close>

text \<open>
  Claim C6. On a \<^verbatim>\<open>RenderContext\<close> whose frames are dictionaries, \<^verbatim>\<open>r[k]\<close>,
  \<^verbatim>\<open>k in r\<close> and \<^verbatim>\<open>r.get(k, d)\<close> are decided by the top frame alone. For a key that
  the top frame binds to \<open>v\<close> they give \<open>v\<close>, true and \<open>v\<close>. For a key that the top frame
  does not bind, \<^verbatim>\<open>r[k]\<close> raises \<^verbatim>\<open>KeyError\<close>, \<^verbatim>\<open>k in r\<close> is false and
  \<^verbatim>\<open>r.get(k, d)\<close> is \<open>d\<close>, also when a frame below the top binds the key, where the
  methods of \<^verbatim>\<open>BaseContext\<close> on the same stack find it.
\<close>

theorem render_context_top_only:
  assumes "class_of h c = Inr RenderContext" and "self_dicts h c = Inr (ds @ [t])"
    and "frames_ok h (ds @ [t])"
  shows "(\<forall>v. frame_at h t k = Some v \<longrightarrow>
            call_getitem h c k = Inr v \<and> contains h c k = Inr True
            \<and> call_get h c k d = Inr v)
       \<and> (frame_at h t k = None \<longrightarrow>
            call_getitem h c k = Inl (KeyError k) \<and> contains h c k = Inr False
            \<and> call_get h c k d = Inr d)
       \<and> (frame_at h t k = None \<and> (\<exists>r \<in> set ds. frame_at h r k \<noteq> None) \<longrightarrow>
            (\<exists>v. getitem h c k = Inr v) \<and> has_key h c k = Inr True)"
proof -
  from assms(3) have t: "is_mapping h t" by (simp add: frames_ok_def)
  from deref_mapping [OF t] obtain ob where
    ob: "deref h t = Inr ob" "mapping_of ob = Some (frame_at h t)" by blast
  have top: "top_frame h c = Inr (t, ob)"
    by (simp add: top_frame_def assms(2) ob(1))
  have g: "call_getitem h c k = dict_getitem (frame_at h t) k"
    by (simp add: call_getitem_def assms(1) render_getitem_def top mapping_getitem [OF ob(2)])
  have m: "contains h c k = Inr (frame_at h t k \<noteq> None)"
    by (simp add: contains_def call_has_key_def assms(1) render_has_key_def top
        mapping_contains [OF ob(2)])
  have "obj_get ob k d = Inr (dict_get (frame_at h t) k d)"
    using ob(2) by (cases ob) simp_all
  then have o: "call_get h c k d = Inr (dict_get (frame_at h t) k d)"
    by (simp add: call_get_def assms(1) render_get_def top)
  have pos: "\<forall>v. frame_at h t k = Some v \<longrightarrow>
            call_getitem h c k = Inr v \<and> contains h c k = Inr True
            \<and> call_get h c k d = Inr v"
    by (simp add: g m o dict_getitem_def dict_get_def)
  have neg: "frame_at h t k = None \<longrightarrow>
            call_getitem h c k = Inl (KeyError k) \<and> contains h c k = Inr False
            \<and> call_get h c k d = Inr d"
    by (simp add: g m o dict_getitem_def dict_get_def)
  have base: "frame_at h t k = None \<and> (\<exists>r \<in> set ds. frame_at h r k \<noteq> None) \<longrightarrow>
            (\<exists>v. getitem h c k = Inr v) \<and> has_key h c k = Inr True"
  proof
    assume a: "frame_at h t k = None \<and> (\<exists>r \<in> set ds. frame_at h r k \<noteq> None)"
    then obtain r where r: "r \<in> set (ds @ [t])" "frame_at h r k \<noteq> None" by auto
    then have "foldl (++) Map.empty (map (frame_at h) (ds @ [t])) k \<noteq> None"
      by (intro foldl_map_add_present [of "frame_at h r"]) auto
    then obtain w where "foldl (++) Map.empty (map (frame_at h) (ds @ [t])) k = Some w"
      by blast
    then have "getitem h c k = Inr w"
      by (simp only: getitem_ok [OF assms(2,3)] option.case)
    then have b: "\<exists>v. getitem h c k = Inr v" ..
    have hk: "has_key h c k = Inr True"
      using r by (auto simp: has_key_def assms(2) any_frame_has_ok [OF assms(3)])
    from b hk show "(\<exists>v. getitem h c k = Inr v) \<and> has_key h c k = Inr True" ..
  qed
  from pos neg base show ?thesis by blast
qed

text \<open>
  The theorem at the frames \<^verbatim>\<open>[builtins, {x: 1}, {y: 2}]\<close>: the key \<^verbatim>\<open>y\<close> of the top frame
  is found, the key \<^verbatim>\<open>x\<close> of the frame below is not.
\<close>

theorem render_context_top_only_witness:
  "class_of ex_render 0 = Inr RenderContext
   \<and> self_dicts ex_render 0 = Inr ([0, 1] @ [2])
   \<and> frames_ok ex_render ([0, 1] @ [2])
   \<and> frame_at ex_render 2 ''y'' = Some (PyInt 2)
   \<and> call_getitem ex_render 0 ''y'' = Inr (PyInt 2)
   \<and> contains ex_render 0 ''y'' = Inr True
   \<and> call_get ex_render 0 ''y'' PyNone = Inr (PyInt 2)
   \<and> frame_at ex_render 2 ''x'' = None
   \<and> (\<exists>r \<in> set [0, 1]. frame_at ex_render r ''x'' \<noteq> None)
   \<and> call_getitem ex_render 0 ''x'' = Inl (KeyError ''x'')
   \<and> contains ex_render 0 ''x'' = Inr False
   \<and> call_get ex_render 0 ''x'' PyNone = Inr PyNone
   \<and> getitem ex_render 0 ''x'' = Inr (PyInt 1)
   \<and> has_key ex_render 0 ''x'' = Inr True"
proof -
  have a: "class_of ex_render 0 = Inr RenderContext"
    by (simp add: ex_render_eval class_of_def)
  have b: "self_dicts ex_render 0 = Inr ([0, 1] @ [2])"
    by (simp add: ex_render_eval self_dicts_def dicts_ref_def)
  have d: "frames_ok ex_render ([0, 1] @ [2])"
    by (simp add: ex_render_eval frames_ok_def is_mapping_def)
  have y: "frame_at ex_render 2 ''y'' = Some (PyInt 2)"
    by (simp add: ex_render_eval frame_at_def)
  have e: "frame_at ex_render 2 ''x'' = None" by (simp add: ex_render_eval frame_at_def)
  have f: "\<exists>r \<in> set [0, 1]. frame_at ex_render r ''x'' \<noteq> None"
    by (simp add: ex_render_eval frame_at_def)
  have g: "getitem ex_render 0 ''x'' = Inr (PyInt 1)"
    by (simp add: ex_render_eval getitem_def self_dicts_def dicts_ref_def deref_def
        dict_getitem_def)
  from render_context_top_only [OF a b d, of "''y''" PyNone] y
  have 1: "call_getitem ex_render 0 ''y'' = Inr (PyInt 2)"
    "contains ex_render 0 ''y'' = Inr True"
    "call_get ex_render 0 ''y'' PyNone = Inr (PyInt 2)"
    by blast+
  from render_context_top_only [OF a b d, of "''x''" PyNone] e f
  have 2: "call_getitem ex_render 0 ''x'' = Inl (KeyError ''x'')"
    "contains ex_render 0 ''x'' = Inr False"
    "call_get ex_render 0 ''x'' PyNone = Inr PyNone"
    "has_key ex_render 0 ''x'' = Inr True"
    by blast+
  show ?thesis by (intro conjI a b d y 1 e f 2(1,2,3) g 2(4))
qed

subsection \<open>C7: copies\<close>

text \<open>
  Claim C7. In a store that satisfies the allocation invariant, for a \<^verbatim>\<open>Context\<close> or
  \<^verbatim>\<open>RequestContext\<close> \<open>c\<close> with live frames: \<^verbatim>\<open>copy(c)\<close> succeeds with a new object \<open>c2\<close>
  of the same class, and no frame object is touched. (1) The \<^verbatim>\<open>dicts\<close> of \<open>c2\<close> is
  another list object than the one of \<open>c\<close>, holding the same references: a \<^verbatim>\<open>push\<close> on
  \<open>c2\<close> succeeds, leaves the list of \<open>c\<close> and \<^verbatim>\<open>k in c\<close> as they were before the copy
  for every \<open>k\<close>, while \<open>c2\<close> sees the pushed bindings; a \<^verbatim>\<open>push\<close> on \<open>c\<close> leaves the
  list of \<open>c2\<close> as it was, and so does a \<^verbatim>\<open>pop\<close> on either for the other. (2) When the
  top frame is a dictionary, \<^verbatim>\<open>c2[k] = v\<close> is seen as \<^verbatim>\<open>c[k] == v\<close> and \<^verbatim>\<open>c[k] = v\<close>
  as \<^verbatim>\<open>c2[k] == v\<close>. (3) The \<^verbatim>\<open>render_context\<close> of \<open>c2\<close> is an object that did not
  exist before, different from the one of \<open>c\<close>, of the same class and with the same
  frames in a list of its own, while the one of \<open>c\<close> stays as it was; the other
  attributes of \<open>c2\<close> are those of \<open>c\<close>.
\<close>

theorem duplicate_context:
  assumes "ctxs h c = Some i" and "cls i = Context \<or> cls i = RequestContext"
    and "extra i = Some st" and "self_dicts h c = Inr ds"
    and "ctxs h (render_context st) = Some ri"
    and "self_dicts h (render_context st) = Inr rds"
    and "heap_ok h" and "\<forall>r \<in> set ds. objs h r \<noteq> None"
  shows "\<exists>c2 h1 i2 st2 ri2.
           copy h c = (Inr c2, h1) \<and> c2 \<noteq> c \<and> ctxs h c2 = None
           \<and> ctxs h1 c = Some i \<and> self_dicts h1 c = Inr ds
           \<and> ctxs h1 c2 = Some i2 \<and> cls i2 = cls i
           \<and> self_dicts h1 c2 = Inr ds \<and> dicts i2 \<noteq> dicts i \<and> objs h1 = objs h
           \<and> (\<forall>init k. (\<exists>d. fst (push h1 c2 init) = Inr d)
                 \<and> self_dicts (snd (push h1 c2 init)) c = Inr ds
                 \<and> contains (snd (push h1 c2 init)) c k = contains h c k
                 \<and> (\<forall>v. init k = Some v \<longrightarrow> getitem (snd (push h1 c2 init)) c2 k = Inr v)
                 \<and> self_dicts (snd (push h1 c init)) c2 = Inr ds)
           \<and> self_dicts (snd (pop h1 c2)) c = Inr ds
           \<and> self_dicts (snd (pop h1 c)) c2 = Inr ds
           \<and> (ds \<noteq> [] \<and> is_mapping h (last ds) \<longrightarrow>
                (\<forall>k v. fst (setitem h1 c2 k v) = Inr ()
                   \<and> getitem (snd (setitem h1 c2 k v)) c k = Inr v
                   \<and> fst (setitem h1 c k v) = Inr ()
                   \<and> getitem (snd (setitem h1 c k v)) c2 k = Inr v))
           \<and> extra i2 = Some st2
           \<and> render_context st2 \<noteq> render_context st
           \<and> ctxs h (render_context st2) = None
           \<and> ctxs h1 (render_context st2) = Some ri2
           \<and> cls ri2 = cls ri \<and> dicts ri2 \<noteq> dicts ri
           \<and> self_dicts h1 (render_context st2) = Inr rds
           \<and> ctxs h1 (render_context st) = Some ri
           \<and> self_dicts h1 (render_context st) = Inr rds
           \<and> st2\<lparr>render_context := render_context st\<rparr> = st"
proof -
  let ?n = "next_cref h"
  let ?l = "next_lref h"
  let ?st2 = "st\<lparr>render_context := Suc ?n\<rparr>"
  let ?i2 = "i\<lparr>dicts := Some ?l, extra := Some ?st2\<rparr>"
  let ?ri2 = "ri\<lparr>dicts := Some (Suc ?l)\<rparr>"
  let ?h1 = "h\<lparr>ctxs := (ctxs h)(Suc ?n \<mapsto> ?ri2, ?n \<mapsto> ?i2),
                next_cref := Suc (Suc ?n),
                lists := (lists h)(?l \<mapsto> ds, Suc ?l \<mapsto> rds),
                next_lref := Suc (Suc ?l)\<rparr>"
  have lt: "c < ?n" "render_context st < ?n"
    using assms(1,5,7) by (auto simp: heap_ok_def)
  have fresh: "ctxs h ?n = None \<and> ctxs h (Suc ?n) = None"
    using assms(7) by (fastforce simp: heap_ok_def)
  have live: "\<forall>r \<in> set ds. r < next_ref h"
    using assms(7,8) by (auto simp: heap_ok_def)
  obtain lc where lc: "dicts i = Some lc" "lists h lc = Some ds"
    using assms(1,4) by (auto simp: self_dicts_def dicts_ref_def split: option.splits)
  obtain lr where lr: "dicts ri = Some lr" "lists h lr = Some rds"
    using assms(5,6) by (auto simp: self_dicts_def dicts_ref_def split: option.splits)
  have llt: "lc < ?l" "lr < ?l"
    using assms(1,5,7) lc(1) lr(1) by (auto simp: heap_ok_def)
  have lrne: "lr \<noteq> ?l" using llt by simp
  note ccs = context_copy_step [OF assms(1,3,4,5) lr lrne lt]
  have "copy h c = context_copy h c"
    using assms(2) by (auto simp: copy_def class_of_def assms(1))
  then have cp: "copy h c = (Inr ?n, ?h1)"
    by (simp only: ccs)
  have ne: "?n \<noteq> c" "Suc ?n \<noteq> c" "Suc ?n \<noteq> render_context st" "?n \<noteq> render_context st"
    using lt by simp_all
  have c1: "ctxs ?h1 c = Some i" using ne assms(1) by simp
  have c2: "ctxs ?h1 ?n = Some ?i2" by simp
  have rc1: "ctxs ?h1 (render_context st) = Some ri" using ne assms(5) by simp
  have rc2: "ctxs ?h1 (Suc ?n) = Some ?ri2" by simp
  have r1: "dicts_ref ?h1 c = Inr lc" using ne assms(1) lc(1) by (simp add: dicts_ref_def)
  have r2: "dicts_ref ?h1 ?n = Inr ?l" by (simp add: dicts_ref_def)
  have d1: "self_dicts ?h1 c = Inr ds"
    using llt lc(2) by (simp add: self_dicts_def r1)
  have d2: "self_dicts ?h1 ?n = Inr ds"
    by (simp add: self_dicts_def r2)
  have dr1: "self_dicts ?h1 (render_context st) = Inr rds"
    using llt lr ne assms(5) by (simp add: self_dicts_def dicts_ref_def)
  have dr2: "self_dicts ?h1 (Suc ?n) = Inr rds"
    by (simp add: self_dicts_def dicts_ref_def)
  have lne: "?l \<noteq> lc" "lc \<noteq> ?l" using llt by simp_all
  have cls1: "class_of ?h1 c = class_of h c"
    using ne assms(1) by (simp add: class_of_def)
  have p1: "\<forall>init k. (\<exists>d. fst (push ?h1 ?n init) = Inr d)
                 \<and> self_dicts (snd (push ?h1 ?n init)) c = Inr ds
                 \<and> contains (snd (push ?h1 ?n init)) c k = contains h c k
                 \<and> (\<forall>v. init k = Some v \<longrightarrow> getitem (snd (push ?h1 ?n init)) ?n k = Inr v)
                 \<and> self_dicts (snd (push ?h1 c init)) ?n = Inr ds"
  proof (intro allI conjI impI)
    fix init :: frame and k :: key
    note pr = push_result [OF d2, of init]
    have nr: "next_ref ?h1 = next_ref h" by simp
    show "\<exists>d. fst (push ?h1 ?n init) = Inr d"
      using pr(1) by blast
    have sd: "self_dicts (snd (push ?h1 ?n init)) c = Inr ds"
      by (rule push_other [OF d2 r2 r1 lne(1) d1])
    then show "self_dicts (snd (push ?h1 ?n init)) c = Inr ds" .
    have same: "\<forall>r \<in> set ds. objs (snd (push ?h1 ?n init)) r = objs h r"
      using live by (auto simp: pr(3))
    have "class_of (snd (push ?h1 ?n init)) c = class_of ?h1 c"
      by (rule class_of_ctxs [OF pr(4)])
    then have cl: "class_of (snd (push ?h1 ?n init)) c = class_of h c"
      by (simp only: cls1)
    show "contains (snd (push ?h1 ?n init)) c k = contains h c k"
      by (rule contains_cong [OF sd assms(4) same cl])
    show "self_dicts (snd (push ?h1 c init)) ?n = Inr ds"
      by (rule push_other [OF d1 r1 r2 lne(2) d2])
    fix v assume v: "init k = Some v"
    have sd2: "self_dicts (snd (push ?h1 ?n init)) ?n = Inr (ds @ [next_ref h])"
      using pr(2) by (simp only: nr)
    have ob: "objs (snd (push ?h1 ?n init)) (next_ref h) = Some (ContextDict init ?n)"
      by (simp add: pr(3))
    show "getitem (snd (push ?h1 ?n init)) ?n k = Inr v"
      by (rule getitem_top [OF sd2 ob, where f = init]) (simp_all add: v)
  qed
  have pp2: "self_dicts (snd (pop ?h1 ?n)) c = Inr ds"
    by (rule pop_other [OF d2 r2 r1 lne(1) d1])
  have pp1: "self_dicts (snd (pop ?h1 c)) ?n = Inr ds"
    by (rule pop_other [OF d1 r1 r2 lne(2) d2])
  have p2: "ds \<noteq> [] \<and> is_mapping h (last ds) \<longrightarrow>
                (\<forall>k v. fst (setitem ?h1 ?n k v) = Inr ()
                   \<and> getitem (snd (setitem ?h1 ?n k v)) c k = Inr v
                   \<and> fst (setitem ?h1 c k v) = Inr ()
                   \<and> getitem (snd (setitem ?h1 c k v)) ?n k = Inr v)"
  proof (intro impI allI)
    fix k v
    assume a: "ds \<noteq> [] \<and> is_mapping h (last ds)"
    let ?t = "last ds"
    have d: "ds = butlast ds @ [?t]" using a by simp
    have d1': "self_dicts ?h1 c = Inr (butlast ds @ [?t])" using d1 d by simp
    have d2': "self_dicts ?h1 ?n = Inr (butlast ds @ [?t])" using d2 d by simp
    have m: "is_mapping ?h1 ?t" using a by (simp add: is_mapping_def)
    have ot: "objs ?h1 = objs h" by simp
    from setitem_mapping [OF d2' m, of k v] obtain ob' where
      s2: "setitem ?h1 ?n k v = (Inr (), ?h1\<lparr>objs := (objs ?h1)(?t \<mapsto> ob')\<rparr>)"
          "mapping_of ob' = Some ((frame_at ?h1 ?t)(k \<mapsto> v))" by blast
    from setitem_mapping [OF d1' m, of k v] obtain ob'' where
      s1: "setitem ?h1 c k v = (Inr (), ?h1\<lparr>objs := (objs ?h1)(?t \<mapsto> ob'')\<rparr>)"
          "mapping_of ob'' = Some ((frame_at ?h1 ?t)(k \<mapsto> v))" by blast
    let ?ha = "?h1\<lparr>objs := (objs ?h1)(?t \<mapsto> ob')\<rparr>"
    let ?hb = "?h1\<lparr>objs := (objs ?h1)(?t \<mapsto> ob'')\<rparr>"
    have da: "self_dicts ?ha c = Inr (butlast ds @ [?t])"
      by (rule self_dicts_frame_eq [OF d1']) simp_all
    have db: "self_dicts ?hb ?n = Inr (butlast ds @ [?t])"
      by (rule self_dicts_frame_eq [OF d2']) simp_all
    have g1: "getitem ?ha c k = Inr v"
      by (rule getitem_top [OF da _ s2(2)]) simp_all
    have g2: "getitem ?hb ?n k = Inr v"
      by (rule getitem_top [OF db _ s1(2)]) simp_all
    show "fst (setitem ?h1 ?n k v) = Inr ()
                   \<and> getitem (snd (setitem ?h1 ?n k v)) c k = Inr v
                   \<and> fst (setitem ?h1 c k v) = Inr ()
                   \<and> getitem (snd (setitem ?h1 c k v)) ?n k = Inr v"
      by (simp only: s1(1) s2(1) fst_conv snd_conv g1 g2 simp_thms)
  qed
  have i2a: "cls ?i2 = cls i" "extra ?i2 = Some ?st2" by simp_all
  have i2b: "dicts ?i2 \<noteq> dicts i" using lc(1) llt by simp
  have ri2a: "cls ?ri2 = cls ri" by simp
  have ri2b: "dicts ?ri2 \<noteq> dicts ri" using lr(1) llt by simp
  have st2a: "render_context ?st2 \<noteq> render_context st" using ne by simp
  have st2b: "?st2\<lparr>render_context := render_context st\<rparr> = st" by simp
  have fr1: "ctxs h ?n = None" using fresh by simp
  have fr2: "ctxs h (render_context ?st2) = None" using fresh by simp
  have rc2': "ctxs ?h1 (render_context ?st2) = Some ?ri2" by simp
  have dr2': "self_dicts ?h1 (render_context ?st2) = Inr rds" using dr2 by simp
  have o1: "objs ?h1 = objs h" by simp
  show ?thesis
    by (intro exI [of _ ?n] exI [of _ ?h1] exI [of _ ?i2] exI [of _ ?st2] exI [of _ ?ri2])
       (intro conjI cp ne(1) fr1 c1 d1 c2 i2a(1) d2 i2b o1 p1 pp2 pp1 p2 i2a(2) st2a fr2
          rc2' ri2a ri2b dr2' rc1 dr1 st2b)
qed

text \<open>
  The theorem at a \<^verbatim>\<open>Context\<close> with the frames \<^verbatim>\<open>[builtins, {x: 1}]\<close>: after the copy,
  \<^verbatim>\<open>push(z=9)\<close> on the copy leaves the list of \<^verbatim>\<open>c\<close> as it was and \<^verbatim>\<open>'z' in c\<close>
  false, and \<^verbatim>\<open>c2['w'] = 4\<close> gives \<^verbatim>\<open>c['w'] == 4\<close>.
\<close>

theorem duplicate_context_witness:
  "heap_ok ex_merged
   \<and> class_of ex_merged 0 = Inr Context
   \<and> self_dicts ex_merged 0 = Inr [1, 2]
   \<and> self_dicts ex_merged 1 = Inr [0]
   \<and> objs ex_merged 1 \<noteq> None \<and> objs ex_merged 2 \<noteq> None \<and> is_mapping ex_merged 2
   \<and> contains ex_merged 0 ''z'' = Inr False
   \<and> (\<exists>c2 h1 i2 st2.
         copy ex_merged 0 = (Inr c2, h1) \<and> c2 \<noteq> 0 \<and> ctxs h1 c2 = Some i2
         \<and> self_dicts h1 c2 = Inr [1, 2] \<and> dicts i2 \<noteq> Some 1
         \<and> self_dicts (snd (push h1 c2 [''z'' \<mapsto> PyInt 9])) 0 = Inr [1, 2]
         \<and> contains (snd (push h1 c2 [''z'' \<mapsto> PyInt 9])) 0 ''z'' = Inr False
         \<and> getitem (snd (push h1 c2 [''z'' \<mapsto> PyInt 9])) c2 ''z'' = Inr (PyInt 9)
         \<and> getitem (snd (setitem h1 c2 ''w'' (PyInt 4))) 0 ''w'' = Inr (PyInt 4)
         \<and> getitem (snd (setitem h1 0 ''w'' (PyInt 4))) c2 ''w'' = Inr (PyInt 4)
         \<and> extra i2 = Some st2 \<and> render_context st2 \<noteq> 1
         \<and> ctxs ex_merged (render_context st2) = None
         \<and> self_dicts h1 (render_context st2) = Inr [0])"
proof -
  let ?st = "\<lparr>autoescape = PyTrue, current_app = PyNone, use_l10n = PyNone,
               use_tz = PyNone, render_context = 1\<rparr>"
  let ?i = "\<lparr>cls = Context, dicts = Some 1, extra = Some ?st\<rparr>"
  let ?ri = "\<lparr>cls = RenderContext, dicts = Some 0, extra = None\<rparr>"
  have ok: "heap_ok ex_merged"
    by (auto simp: heap_ok_def ex_merged_eval split: if_splits)
  have a: "ctxs ex_merged 0 = Some ?i" by (simp add: ex_merged_eval)
  have cl: "class_of ex_merged 0 = Inr Context" by (simp add: class_of_def a)
  have b: "cls ?i = Context \<or> cls ?i = RequestContext" by simp
  have c: "extra ?i = Some ?st" by simp
  have sd: "self_dicts ex_merged 0 = Inr [1, 2]"
    by (simp add: ex_merged_eval self_dicts_def dicts_ref_def)
  have d: "ctxs ex_merged (render_context ?st) = Some ?ri" by (simp add: ex_merged_eval)
  have rd: "self_dicts ex_merged (render_context ?st) = Inr [0]"
    by (simp add: ex_merged_eval self_dicts_def dicts_ref_def)
  then have rd': "self_dicts ex_merged 1 = Inr [0]" by simp
  have o: "objs ex_merged 1 \<noteq> None" "objs ex_merged 2 \<noteq> None"
    by (simp_all add: ex_merged_eval)
  then have e: "\<forall>r \<in> set [1, 2]. objs ex_merged r \<noteq> None" by simp
  have m: "is_mapping ex_merged 2" by (simp add: ex_merged_eval is_mapping_def)
  then have m': "[1, 2 :: nat] \<noteq> [] \<and> is_mapping ex_merged (last [1, 2])" by simp
  have z: "contains ex_merged 0 ''z'' = Inr False"
    by (simp add: ex_merged_eval contains_def call_has_key_def class_of_def has_key_def
        self_dicts_def dicts_ref_def deref_def builtins_def)
  have zz: "[''z'' \<mapsto> PyInt 9] ''z'' = Some (PyInt 9)" by simp
  from duplicate_context [OF a b c sd d rd ok e] obtain c2 h1 i2 st2 where
    r: "copy ex_merged 0 = (Inr c2, h1)" "c2 \<noteq> 0" "ctxs h1 c2 = Some i2"
       "self_dicts h1 c2 = Inr [1, 2]" "dicts i2 \<noteq> dicts ?i"
       "\<forall>init k. (\<exists>d. fst (push h1 c2 init) = Inr d)
                 \<and> self_dicts (snd (push h1 c2 init)) 0 = Inr [1, 2]
                 \<and> contains (snd (push h1 c2 init)) 0 k = contains ex_merged 0 k
                 \<and> (\<forall>v. init k = Some v \<longrightarrow> getitem (snd (push h1 c2 init)) c2 k = Inr v)
                 \<and> self_dicts (snd (push h1 0 init)) c2 = Inr [1, 2]"
       "[1, 2 :: nat] \<noteq> [] \<and> is_mapping ex_merged (last [1, 2]) \<longrightarrow>
                (\<forall>k v. fst (setitem h1 c2 k v) = Inr ()
                   \<and> getitem (snd (setitem h1 c2 k v)) 0 k = Inr v
                   \<and> fst (setitem h1 0 k v) = Inr ()
                   \<and> getitem (snd (setitem h1 0 k v)) c2 k = Inr v)"
       "extra i2 = Some st2" "render_context st2 \<noteq> render_context ?st"
       "ctxs ex_merged (render_context st2) = None"
       "self_dicts h1 (render_context st2) = Inr [0]"
    by (elim exE conjE) (rule that; assumption)
  from r(6) have p0: "self_dicts (snd (push h1 c2 [''z'' \<mapsto> PyInt 9])) 0 = Inr [1, 2]"
    by blast
  from r(6) have "contains (snd (push h1 c2 [''z'' \<mapsto> PyInt 9])) 0 ''z''
                    = contains ex_merged 0 ''z''" by blast
  then have p1: "contains (snd (push h1 c2 [''z'' \<mapsto> PyInt 9])) 0 ''z'' = Inr False"
    by (simp only: z)
  from r(6) zz have p2:
    "getitem (snd (push h1 c2 [''z'' \<mapsto> PyInt 9])) c2 ''z'' = Inr (PyInt 9)"
    by blast
  from r(7) m' have s:
    "getitem (snd (setitem h1 c2 ''w'' (PyInt 4))) 0 ''w'' = Inr (PyInt 4)"
    "getitem (snd (setitem h1 0 ''w'' (PyInt 4))) c2 ''w'' = Inr (PyInt 4)"
    by blast+
  from r(5) have d2: "dicts i2 \<noteq> Some 1" by simp
  from r(9) have n1: "render_context st2 \<noteq> 1" by simp
  have "\<exists>c2 h1 i2 st2.
         copy ex_merged 0 = (Inr c2, h1) \<and> c2 \<noteq> 0 \<and> ctxs h1 c2 = Some i2
         \<and> self_dicts h1 c2 = Inr [1, 2] \<and> dicts i2 \<noteq> Some 1
         \<and> self_dicts (snd (push h1 c2 [''z'' \<mapsto> PyInt 9])) 0 = Inr [1, 2]
         \<and> contains (snd (push h1 c2 [''z'' \<mapsto> PyInt 9])) 0 ''z'' = Inr False
         \<and> getitem (snd (push h1 c2 [''z'' \<mapsto> PyInt 9])) c2 ''z'' = Inr (PyInt 9)
         \<and> getitem (snd (setitem h1 c2 ''w'' (PyInt 4))) 0 ''w'' = Inr (PyInt 4)
         \<and> getitem (snd (setitem h1 0 ''w'' (PyInt 4))) c2 ''w'' = Inr (PyInt 4)
         \<and> extra i2 = Some st2 \<and> render_context st2 \<noteq> 1
         \<and> ctxs ex_merged (render_context st2) = None
         \<and> self_dicts h1 (render_context st2) = Inr [0]"
    by (intro exI [of _ c2] exI [of _ h1] exI [of _ i2] exI [of _ st2])
       (intro conjI r(1,2,3,4) d2 p0 p1 p2 s r(8) n1 r(10,11))
  then show ?thesis
    by (intro conjI ok cl sd rd' o m z)
qed

subsection \<open>C8: the processors of a RequestContext\<close>

lemma import_all_append:
  "import_all imp (xs @ ys) = Inr std \<Longrightarrow>
   \<exists>bs cs. import_all imp xs = Inr bs \<and> import_all imp ys = Inr cs \<and> std = bs @ cs"
  by (induction xs arbitrary: std) (auto split: sum.splits)

lemma run_processors_ok:
  "\<forall>p \<in> set ps. \<exists>d. p request = Inr d \<Longrightarrow>
   run_processors request u ps = Inr (foldl (++) u (map (\<lambda>p. the_frame (p request)) ps))"
  by (induction ps arbitrary: u) (auto simp: the_frame_def)

text \<open>
  The loop stops at the first processor that raises: the ones before it have run, the ones
  after it have not.
\<close>

lemma run_processors_first_error:
  "\<forall>p \<in> set qs. \<exists>d. p request = Inr d \<Longrightarrow> p request = Inl e \<Longrightarrow>
   run_processors request u (qs @ p # rs) = Inl e"
  by (induction qs arbitrary: u) auto

text \<open>
  Claim C8. When \<^verbatim>\<open>get_standard_processors\<close> returns the tuple \<open>std\<close> and every
  processor of \<open>std\<close> and of the caller's list returns a dictionary, the construction of
  a \<^verbatim>\<open>RequestContext\<close> succeeds. Its stack is the stack of \<^verbatim>\<open>Context(dict_)\<close>, the
  builtins and \<^verbatim>\<open>dict_\<close> if given, with exactly one more frame on top: a dictionary
  that did not exist before, holding the dictionaries returned by \<open>std\<close> and then by the
  caller's processors, folded from left to right with the later one overriding. With an
  empty cache \<open>std\<close> is the built-in list followed by the configured list; with a
  filled cache it is the cached tuple.
\<close>

theorem request_context_merges_processors:
  assumes "get_standard_processors import_string settings cache = (Inr std, cache1)"
    and "procs = (case processors of None \<Rightarrow> [] | Some ps \<Rightarrow> ps)"
    and "\<forall>p \<in> set (std @ procs). \<exists>d. p request = Inr d"
    and "heap_ok h"
  shows "\<exists>self h' b u.
           new_request_context import_string settings cache h request dict0 processors
               app l10n tz = (Inr self, h', cache1)
           \<and> class_of h' self = Inr RequestContext
           \<and> self_dicts h' self = Inr ((case dict0 of None \<Rightarrow> [b] | Some d \<Rightarrow> [b, d]) @ [u])
           \<and> objs h' b = Some (Dict builtins)
           \<and> objs h u = None
           \<and> objs h' u =
               Some (Dict (foldl (++) Map.empty
                             (map (\<lambda>p. the_frame (p request)) (std @ procs))))
           \<and> (cache = None \<longrightarrow>
                (\<exists>bs cs. import_all import_string builtin_context_processors = Inr bs
                    \<and> import_all import_string settings = Inr cs \<and> std = bs @ cs))
           \<and> (\<forall>ps. cache = Some ps \<longrightarrow> std = ps)"
proof -
  let ?self = "next_cref h"
  let ?i0 = "\<lparr>cls = RequestContext, dicts = None, extra = None\<rparr>"
  let ?h0 = "h\<lparr>ctxs := (ctxs h)(?self \<mapsto> ?i0), next_cref := Suc ?self\<rparr>"
  let ?b = "Suc (next_ref h)"
  let ?u = "Suc (Suc (next_ref h))"
  let ?base = "case dict0 of None \<Rightarrow> [?b] | Some v \<Rightarrow> [?b, v]"
  let ?comb = "foldl (++) Map.empty (map (\<lambda>p. the_frame (p request)) (std @ procs))"
  have ni: "new_instance h RequestContext = (?self, ?h0)"
    by (simp add: new_instance_def alloc_ctx_def)
  have c0: "ctxs ?h0 ?self = Some ?i0" by simp
  have n0: "?self \<noteq> next_cref ?h0" by simp
  let ?h1 = "context_init ?h0 ?self dict0 PyTrue app l10n tz"
  note ci = context_init_result [OF c0 n0, of dict0 PyTrue app l10n tz]
  have h1_d: "self_dicts ?h1 ?self = Inr ?base" using ci(1) by (simp split: option.splits)
  have h1_c: "class_of ?h1 ?self = Inr RequestContext" using ci(2) by simp
  have h1_o: "objs ?h1 = (objs h)(next_ref h \<mapsto> Dict builtins, ?b \<mapsto> Dict builtins)"
    using ci(3) by simp
  have h1_n: "next_ref ?h1 = ?u" using ci(4) by simp
  let ?h2 = "?h1\<lparr>objs := (objs ?h1)(?u \<mapsto> Dict Map.empty), next_ref := Suc ?u\<rparr>"
  have al: "alloc_obj ?h1 (Dict Map.empty) = (?u, ?h2)"
    by (simp only: alloc_obj_def h1_n)
  let ?h2' = "?h2\<lparr>objs := (objs ?h2)(?u \<mapsto> Dict ?comb)\<rparr>"
  have d2: "self_dicts ?h2' ?self = Inr ?base"
    by (rule self_dicts_frame_eq [OF h1_d]) simp_all
  have o2: "objs ?h2' ?u = Some (Dict ?comb)" by simp
  let ?h3 = "set_dicts ?h2' ?self (?base @ [?u])"
  have up: "update ?h2' ?self (Some ?u) = (Inr ?u, ?h3)"
    by (simp only: update_def option.case deref_def o2 sum.case has_getitem.simps
        not_True_eq_False if_False d2)
  have run: "run_processors request Map.empty (std @ procs) = Inr ?comb"
    by (rule run_processors_ok [OF assms(3)])
  have init: "request_context_init import_string settings cache ?h0 ?self request dict0
                processors app l10n tz = (Inr (), ?h3, cache1)"
    unfolding request_context_init_def Let_def al
    by (simp only: prod.case assms(1) sum.case assms(2) [symmetric] run up)
  have new: "new_request_context import_string settings cache h request dict0 processors
               app l10n tz = (Inr ?self, ?h3, cache1)"
    unfolding new_request_context_def Let_def ni
    by (simp only: prod.case init sum.case)
  have d3: "self_dicts ?h3 ?self
              = Inr ((case dict0 of None \<Rightarrow> [?b] | Some d \<Rightarrow> [?b, d]) @ [?u])"
    by (rule self_dicts_set_dicts [OF d2])
  have "class_of ?h3 ?self = class_of ?h1 ?self"
    by (rule class_of_ctxs) simp
  then have c3: "class_of ?h3 ?self = Inr RequestContext" by (simp only: h1_c)
  have b3: "objs ?h3 ?b = Some (Dict builtins)" by (simp add: h1_o)
  have u3: "objs ?h3 ?u = Some (Dict ?comb)" by simp
  have fresh: "objs h ?u = None"
    using assms(4) by (fastforce simp: heap_ok_def)
  have ca: "cache = None \<longrightarrow>
              (\<exists>bs cs. import_all import_string builtin_context_processors = Inr bs
                  \<and> import_all import_string settings = Inr cs \<and> std = bs @ cs)"
  proof
    assume "cache = None"
    with assms(1) have "import_all import_string (builtin_context_processors @ settings) = Inr std"
      by (auto simp: get_standard_processors_def split: sum.splits)
    from import_all_append [OF this]
    show "\<exists>bs cs. import_all import_string builtin_context_processors = Inr bs
                  \<and> import_all import_string settings = Inr cs \<and> std = bs @ cs" .
  qed
  have cb: "\<forall>ps. cache = Some ps \<longrightarrow> std = ps"
    using assms(1) by (auto simp: get_standard_processors_def)
  show ?thesis
    by (intro exI [of _ ?self] exI [of _ ?h3] exI [of _ ?b] exI [of _ ?u])
       (intro conjI new c3 d3 b3 fresh u3 ca cb)
qed

text \<open>
  The theorem at the example of the specification: the frame on top is
  \<^verbatim>\<open>{a: 2, b: 3, c: 3}\<close>.
\<close>

theorem request_context_merges_processors_witness:
  "get_standard_processors ex_import_string [''configured''] None
     = (Inr [ex_csrf, ex_configured], Some [ex_csrf, ex_configured])
   \<and> ex_csrf () = Inr [''a'' \<mapsto> PyInt 1]
   \<and> ex_configured () = Inr [''a'' \<mapsto> PyInt 2, ''b'' \<mapsto> PyInt 2]
   \<and> ex_caller () = Inr [''b'' \<mapsto> PyInt 3, ''c'' \<mapsto> PyInt 3]
   \<and> heap_ok empty_heap
   \<and> (\<exists>self h' b u.
         new_request_context ex_import_string [''configured''] None empty_heap () None
             (Some [ex_caller]) PyNone PyNone PyNone
           = (Inr self, h', Some [ex_csrf, ex_configured])
         \<and> class_of h' self = Inr RequestContext \<and> self_dicts h' self = Inr [b, u]
         \<and> objs h' b = Some (Dict builtins)
         \<and> objs h' u = Some (Dict [''a'' \<mapsto> PyInt 2, ''b'' \<mapsto> PyInt 3, ''c'' \<mapsto> PyInt 3]))"
proof -
  let ?std = "[ex_csrf, ex_configured]"
  have a: "get_standard_processors ex_import_string [''configured''] None = (Inr ?std, Some ?std)"
    by (simp add: get_standard_processors_def builtin_context_processors_def
        ex_import_string_def)
  have b: "[ex_caller] = (case Some [ex_caller] of None \<Rightarrow> [] | Some ps \<Rightarrow> ps)" by simp
  have p: "ex_csrf () = Inr [''a'' \<mapsto> PyInt 1]"
    "ex_configured () = Inr [''a'' \<mapsto> PyInt 2, ''b'' \<mapsto> PyInt 2]"
    "ex_caller () = Inr [''b'' \<mapsto> PyInt 3, ''c'' \<mapsto> PyInt 3]"
    by (simp_all add: ex_csrf_def ex_configured_def ex_caller_def)
  then have c: "\<forall>p \<in> set (?std @ [ex_caller]). \<exists>d. p () = Inr d" by simp
  have comb: "foldl (++) Map.empty (map (\<lambda>p. the_frame (p ())) (?std @ [ex_caller]))
                = [''a'' \<mapsto> PyInt 2, ''b'' \<mapsto> PyInt 3, ''c'' \<mapsto> PyInt 3]"
    by (simp add: p the_frame_def)
  let ?new = "new_request_context ex_import_string [''configured''] None empty_heap () None
             (Some [ex_caller]) PyNone PyNone PyNone"
  from request_context_merges_processors [OF a b c heap_ok_empty, of None PyNone PyNone PyNone]
  obtain self h' b u where
    r: "?new = (Inr self, h', Some ?std)"
       "class_of h' self = Inr RequestContext"
       "self_dicts h' self = Inr ((case None of None \<Rightarrow> [b] | Some d \<Rightarrow> [b, d]) @ [u])"
       "objs h' b = Some (Dict builtins)"
       "objs h' u = Some (Dict (foldl (++) Map.empty
                             (map (\<lambda>p. the_frame (p ())) (?std @ [ex_caller]))))"
    by (elim exE conjE) (rule that; assumption)
  from r(3) have d: "self_dicts h' self = Inr [b, u]" by simp
  from r(5) have u: "objs h' u
      = Some (Dict [''a'' \<mapsto> PyInt 2, ''b'' \<mapsto> PyInt 3, ''c'' \<mapsto> PyInt 3])"
    by (simp only: comb)
  have "\<exists>self h' b u.
         ?new = (Inr self, h', Some ?std)
         \<and> class_of h' self = Inr RequestContext \<and> self_dicts h' self = Inr [b, u]
         \<and> objs h' b = Some (Dict builtins)
         \<and> objs h' u = Some (Dict [''a'' \<mapsto> PyInt 2, ''b'' \<mapsto> PyInt 3, ''c'' \<mapsto> PyInt 3])"
    by (intro exI [of _ self] exI [of _ h'] exI [of _ b] exI [of _ u])
       (intro conjI r(1,2,4) d u)
  then show ?thesis
    by (intro conjI a p heap_ok_empty)
qed

subsection \<open>C9: the handle of push\<close>

text \<open>
  Claim C9, as amended. For a handle \<open>d\<close> made by \<^verbatim>\<open>push\<close> on the context \<open>c\<close>, and
  whatever exception information \<^verbatim>\<open>__exit__\<close> is given: a release performs one
  \<^verbatim>\<open>pop\<close> on \<open>c\<close>, removing the frame then on top when there are at least two frames
  and raising \<^verbatim>\<open>ContextPopException\<close> when there is one. The handle keeps no record of
  the release: on a stack of at least three frames a second release of the same handle
  succeeds and removes one more frame.
\<close>

theorem handle_release:
  assumes "objs h d = Some (ContextDict f c)" and "self_dicts h c = Inr ds"
  shows "(2 \<le> length ds \<longrightarrow>
            context_dict_exit h d exc = (Inr (), set_dicts h c (butlast ds)))
       \<and> (length ds = 1 \<longrightarrow>
            context_dict_exit h d exc = (Inl ContextPopException, h))
       \<and> (3 \<le> length ds \<longrightarrow>
            context_dict_exit (snd (context_dict_exit h d exc)) d exc'
              = (Inr (), set_dicts h c (butlast (butlast ds))))"
proof -
  have one: "\<And>h ds. objs h d = Some (ContextDict f c) \<Longrightarrow> self_dicts h c = Inr ds \<Longrightarrow>
      2 \<le> length ds \<Longrightarrow>
      context_dict_exit h d exc = (Inr (), set_dicts h c (butlast ds))" for exc
    by (auto simp: context_dict_exit_def deref_def pop_def)
  have a: "2 \<le> length ds \<longrightarrow>
            context_dict_exit h d exc = (Inr (), set_dicts h c (butlast ds))"
    using one [OF assms] by simp
  have b: "length ds = 1 \<longrightarrow> context_dict_exit h d exc = (Inl ContextPopException, h)"
    using assms by (simp add: context_dict_exit_def deref_def pop_def)
  have c: "3 \<le> length ds \<longrightarrow>
            context_dict_exit (snd (context_dict_exit h d exc)) d exc'
              = (Inr (), set_dicts h c (butlast (butlast ds)))"
  proof
    assume l: "3 \<le> length ds"
    let ?h1 = "set_dicts h c (butlast ds)"
    from l have first: "context_dict_exit h d exc = (Inr (), ?h1)"
      using one [OF assms] by simp
    have o1: "objs ?h1 d = Some (ContextDict f c)"
      by (simp add: assms)
    have c1: "self_dicts ?h1 c = Inr (butlast ds)"
      by (rule self_dicts_set_dicts [OF assms(2)])
    from l have "2 \<le> length (butlast ds)" by simp
    from one [OF o1 c1 this, of exc']
    show "context_dict_exit (snd (context_dict_exit h d exc)) d exc'
              = (Inr (), set_dicts h c (butlast (butlast ds)))"
      by (simp add: first set_dicts_set_dicts)
  qed
  from a b c show ?thesis by blast
qed

text \<open>
  The claim as worded fails: nothing prevents a second release. The handle of the second
  \<^verbatim>\<open>push\<close> on \<^verbatim>\<open>[builtins, {a: 1}, {a: 2, b: 3}]\<close>, released twice, pops two frames.
\<close>

theorem handle_release_twice_counterexample:
  "objs ex_stack 2 = Some (ContextDict [''a'' \<mapsto> PyInt 2, ''b'' \<mapsto> PyInt 3] 0)
   \<and> self_dicts ex_stack 0 = Inr [0, 1, 2]
   \<and> fst (context_dict_exit ex_stack 2 None) = Inr ()
   \<and> fst (context_dict_exit (snd (context_dict_exit ex_stack 2 None)) 2 None) = Inr ()
   \<and> self_dicts (snd (context_dict_exit (snd (context_dict_exit ex_stack 2 None)) 2 None)) 0
       = Inr [0]"
  by (simp add: ex_stack_eval context_dict_exit_def deref_def pop_def self_dicts_def
      dicts_ref_def set_dicts_def)

text \<open>
  The amended statement at that handle: a first release given an exception, a second
  release, and a release when only the bottom frame is left.
\<close>

theorem handle_release_witness:
  "objs ex_stack 2 = Some (ContextDict [''a'' \<mapsto> PyInt 2, ''b'' \<mapsto> PyInt 3] 0)
   \<and> self_dicts ex_stack 0 = Inr [0, 1, 2]
   \<and> context_dict_exit ex_stack 2 (Some TypeError) = (Inr (), set_dicts ex_stack 0 [0, 1])
   \<and> context_dict_exit (snd (context_dict_exit ex_stack 2 (Some TypeError))) 2 None
       = (Inr (), set_dicts ex_stack 0 [0])
   \<and> self_dicts (set_dicts ex_stack 0 [0]) 0 = Inr [0]
   \<and> context_dict_exit (set_dicts ex_stack 0 [0]) 2 None
       = (Inl ContextPopException, set_dicts ex_stack 0 [0])"
proof -
  let ?f = "[''a'' \<mapsto> PyInt 2, ''b'' \<mapsto> PyInt 3]"
  have a: "objs ex_stack 2 = Some (ContextDict ?f 0)" by (simp add: ex_stack_eval)
  have b: "self_dicts ex_stack 0 = Inr [0, 1, 2]"
    by (simp add: ex_stack_eval self_dicts_def dicts_ref_def)
  have a': "objs (set_dicts ex_stack 0 [0]) 2 = Some (ContextDict ?f 0)"
    by (simp add: a)
  have b': "self_dicts (set_dicts ex_stack 0 [0]) 0 = Inr [0]"
    by (rule self_dicts_set_dicts [OF b])
  note hr = handle_release [OF a b, of "Some TypeError" None]
  have l2: "2 \<le> length [0, 1, 2 :: nat]" and l3: "3 \<le> length [0, 1, 2 :: nat]" by simp_all
  from hr l2
  have "context_dict_exit ex_stack 2 (Some TypeError)
          = (Inr (), set_dicts ex_stack 0 (butlast [0, 1, 2]))"
    by blast
  then have 1: "context_dict_exit ex_stack 2 (Some TypeError)
                  = (Inr (), set_dicts ex_stack 0 [0, 1])"
    by simp
  from hr l3
  have "context_dict_exit (snd (context_dict_exit ex_stack 2 (Some TypeError))) 2 None
          = (Inr (), set_dicts ex_stack 0 (butlast (butlast [0, 1, 2])))"
    by blast
  then have 2: "context_dict_exit (snd (context_dict_exit ex_stack 2 (Some TypeError))) 2 None
                  = (Inr (), set_dicts ex_stack 0 [0])"
    by simp
  have l1: "length [0 :: nat] = 1" by simp
  from handle_release [OF a' b', of None None] l1
  have 3: "context_dict_exit (set_dicts ex_stack 0 [0]) 2 None
             = (Inl ContextPopException, set_dicts ex_stack 0 [0])"
    by blast
  show ?thesis by (intro conjI a b b' 1 2 3)
qed

text \<open>
  The \<^verbatim>\<open>with\<close> statement around a block that leaves the stack of \<open>c\<close> and the handle as
  it found them: the frame pushed on entry is popped on exit, and the outcome of the block,
  a value or an exception, is the outcome of the statement.
\<close>

lemma with_push_pops_once:
  assumes "self_dicts h c = Inr ds" and "ds \<noteq> []"
    and "body (next_ref h) (snd (push h c init)) = (res, h2)"
    and "self_dicts h2 c = self_dicts (snd (push h c init)) c"
    and "objs h2 (next_ref h) = objs (snd (push h c init)) (next_ref h)"
  shows "with_push h c init body = (res, set_dicts h2 c ds)"
proof -
  let ?d = "next_ref h"
  let ?h0 = "h\<lparr>objs := (objs h)(?d \<mapsto> ContextDict init c), next_ref := Suc ?d\<rparr>"
  have d0: "self_dicts ?h0 c = Inr ds"
    using assms(1) by (simp add: self_dicts_frame [of ?h0 h])
  have ps: "push h c init = (Inr ?d, set_dicts ?h0 c (ds @ [?d]))"
    by (rule push_step [OF assms(1)])
  have o: "objs h2 ?d = Some (ContextDict init c)"
    by (simp add: assms(5) ps)
  have c2: "self_dicts h2 c = Inr (ds @ [?d])"
    by (simp add: assms(4) ps self_dicts_set_dicts [OF d0])
  have "context_dict_exit h2 ?d (exc_of res) = (Inr (), set_dicts h2 c ds)"
    using assms(2) by (simp add: context_dict_exit_def deref_def o pop_step [OF c2])
  then show ?thesis
    using assms(3)
    by (simp add: with_push_def ps context_dict_enter_def)
qed

subsection \<open>C10: equality with an object that is not a context\<close>

text \<open>
  Claim C10. When the other operand is not an instance of \<^verbatim>\<open>BaseContext\<close>,
  \<^verbatim>\<open>__eq__\<close> returns \<^verbatim>\<open>False\<close>; it raises nothing and does not look at the operand.
\<close>

theorem eq_non_context:
  "\<not> isinstance_BaseContext x \<Longrightarrow> eq h self x = Inr False"
  by (cases x) simp_all

text \<open>
  The theorem at a plain dictionary that holds exactly what the stack flattens to.
\<close>

theorem eq_non_context_witness:
  "\<not> isinstance_BaseContext (Obj 3)
   \<and> flatten ex_plain 0 = Inr (builtins(''a'' \<mapsto> PyInt 2, ''b'' \<mapsto> PyInt 3))
   \<and> objs ex_plain 3 = Some (Dict (builtins(''a'' \<mapsto> PyInt 2, ''b'' \<mapsto> PyInt 3)))
   \<and> eq ex_plain 0 (Obj 3) = Inr False"
proof -
  have a: "\<not> isinstance_BaseContext (Obj 3)" by simp
  have b: "flatten ex_plain 0 = Inr (builtins(''a'' \<mapsto> PyInt 2, ''b'' \<mapsto> PyInt 3))"
    by (simp add: ex_plain_eval flatten_def self_dicts_def dicts_ref_def deref_def)
  have c: "objs ex_plain 3 = Some (Dict (builtins(''a'' \<mapsto> PyInt 2, ''b'' \<mapsto> PyInt 3)))"
    by (simp add: ex_plain_eval)
  from eq_non_context [OF a, of ex_plain 0] a b c show ?thesis by simp
qed

end
